theory Spec2Isabelle
  imports Main "HOL-Library.Word"
begin

section \<open>Frames and numpy slicing\<close>

text \<open>
  A frame is the numpy array the capture step produces: rows of BGR pixels, 8 bits per
  channel. \<open>img.shape[0]\<close> is the number of rows, \<open>img.shape[1]\<close> the number of columns.
\<close>

type_synonym pixel = "8 word \<times> 8 word \<times> 8 word"
type_synonym image = "pixel list list"

definition black :: pixel where
  "black = (0, 0, 0)"

definition shape0 :: "image \<Rightarrow> nat" where
  "shape0 img = length img"

definition shape1 :: "image \<Rightarrow> nat" where
  "shape1 img = (case img of [] \<Rightarrow> 0 | r # _ \<Rightarrow> length r)"

text \<open>\<open>image.size\<close> of the source: the number of array elements (3 channels per pixel).\<close>

definition image_size :: "image \<Rightarrow> nat" where
  "image_size img = shape0 img * shape1 img * 3"

text \<open>
  Python resolves one bound of a slice \<open>a[start:stop]\<close> over an axis of length \<open>n\<close>:
  a negative bound counts from the end, and every bound is clamped into \<open>0..n\<close>.
\<close>

definition slice_index :: "nat \<Rightarrow> int \<Rightarrow> nat" where
  "slice_index n i = (if i < 0 then nat (max 0 (i + int n)) else min (nat i) n)"

text \<open>
  \<open>img[r0:r1, c0:c1] = v\<close> with a scalar \<open>v\<close>: every pixel of the selected rows and
  columns is overwritten, all other pixels are kept. An empty selection changes nothing
  and raises nothing.
\<close>

definition fill_slice :: "image \<Rightarrow> int \<Rightarrow> int \<Rightarrow> int \<Rightarrow> int \<Rightarrow> pixel \<Rightarrow> image" where
  "fill_slice img r0 r1 c0 c1 v =
     (let rlo = slice_index (shape0 img) r0; rhi = slice_index (shape0 img) r1;
          clo = slice_index (shape1 img) c0; chi = slice_index (shape1 img) c1
      in map (\<lambda>i. map (\<lambda>j. if rlo \<le> i \<and> i < rhi \<and> clo \<le> j \<and> j < chi then v
                              else img ! i ! j)
                       [0..<length (img ! i)])
             [0..<length img])"

section \<open>Exclusion masking in the capture step\<close>

text \<open>An exclusion region \<open>(x, y, w, h)\<close> as \<open>add_exclude_region\<close> stores it.\<close>

type_synonym region = "int \<times> int \<times> int \<times> int"

definition add_exclude_region :: "region list \<Rightarrow> int \<Rightarrow> int \<Rightarrow> int \<Rightarrow> int \<Rightarrow> region list" where
  "add_exclude_region regions x y w h = regions @ [(x, y, w, h)]"

text \<open>
  The body of the loop over \<open>self.exclude_regions\<close> in \<open>_capture_screen\<close>: the coordinate
  check, the clipping of the far corner, and the slice assignment of zero.
\<close>

fun mask_region :: "image \<Rightarrow> region \<Rightarrow> image" where
  "mask_region img (x, y, w, h) =
     (if x \<ge> 0 \<and> y \<ge> 0 \<and> x < int (shape1 img) \<and> y < int (shape0 img)
      then (let end_x = min (x + w) (int (shape1 img));
                end_y = min (y + h) (int (shape0 img))
            in fill_slice img y end_y x end_x black)
      else img)"

definition mask_regions :: "image \<Rightarrow> region list \<Rightarrow> image" where
  "mask_regions img regions = foldl mask_region img regions"

text \<open>
  \<open>_capture_screen\<close>: the grab (with the colour conversion and the optional down-scaling)
  either raises or yields the image; every exception is caught and turned into \<open>None\<close>.
  The masking runs on the image the grab yields.
\<close>

datatype grab = GrabRaised | Grabbed image

fun capture_screen :: "region list \<Rightarrow> grab \<Rightarrow> image option" where
  "capture_screen regions GrabRaised = None"
| "capture_screen regions (Grabbed img) = Some (mask_regions img regions)"

text \<open>The pixels an exclusion region covers inside a frame of the given size.\<close>

definition in_region :: "region \<Rightarrow> nat \<Rightarrow> nat \<Rightarrow> bool" where
  "in_region rg i j = (case rg of (x, y, w, h) \<Rightarrow>
     y \<le> int i \<and> int i < y + h \<and> x \<le> int j \<and> int j < x + w)"

text \<open>The coordinate check of the source: the region's origin lies inside the frame.\<close>

definition origin_inside :: "image \<Rightarrow> region \<Rightarrow> bool" where
  "origin_inside img rg = (case rg of (x, y, w, h) \<Rightarrow>
     x \<ge> 0 \<and> y \<ge> 0 \<and> x < int (shape1 img) \<and> y < int (shape0 img))"

text \<open>A frame is rectangular, as every numpy array is.\<close>

definition rect :: "image \<Rightarrow> bool" where
  "rect img = list_all (\<lambda>r. length r = shape1 img) img"

section \<open>Reading and writing a sub-array\<close>

text \<open>\<open>img[r0:r1, c0:c1]\<close> as a value: the selected rows and columns.\<close>

definition get_slice :: "image \<Rightarrow> int \<Rightarrow> int \<Rightarrow> int \<Rightarrow> int \<Rightarrow> image" where
  "get_slice img r0 r1 c0 c1 =
     (let rlo = slice_index (shape0 img) r0; rhi = slice_index (shape0 img) r1;
          clo = slice_index (shape1 img) c0; chi = slice_index (shape1 img) c1
      in map (\<lambda>i. map (\<lambda>j. img ! i ! j) [clo..<chi]) [rlo..<rhi])"

text \<open>Exceptions of the Python code that the model distinguishes.\<close>

datatype exn = ZeroDivisionError | Cv2Error | ValueError | QueueFull | QueueEmpty | MssError

text \<open>
  \<open>img[r0:r1, c0:c1] = v\<close> with an array \<open>v\<close>: numpy broadcasts an axis of length one of
  \<open>v\<close> and raises \<open>ValueError\<close> when the shapes do not fit.
\<close>

definition set_slice :: "image \<Rightarrow> int \<Rightarrow> int \<Rightarrow> int \<Rightarrow> int \<Rightarrow> image \<Rightarrow> exn + image" where
  "set_slice img r0 r1 c0 c1 v =
     (let rlo = slice_index (shape0 img) r0; rhi = slice_index (shape0 img) r1;
          clo = slice_index (shape1 img) c0; chi = slice_index (shape1 img) c1
      in if (shape0 v = rhi - rlo \<or> shape0 v = 1) \<and> (shape1 v = chi - clo \<or> shape1 v = 1)
         then Inr (map (\<lambda>i. map (\<lambda>j. if rlo \<le> i \<and> i < rhi \<and> clo \<le> j \<and> j < chi
                                        then v ! (if shape0 v = 1 then 0 else i - rlo)
                                               ! (if shape1 v = 1 then 0 else j - clo)
                                        else img ! i ! j)
                                 [0..<length (img ! i)])
                       [0..<length img])
         else Inl ValueError)"

section \<open>The frame queue and the capture thread\<close>

text \<open>
  \<open>queue.Queue(maxsize)\<close>: a FIFO; a \<open>maxsize\<close> of zero or less means no bound.
  An operation is done, raises, or blocks the calling thread.
\<close>

record 'a pyqueue =
  maxsize :: int
  items :: "'a list"

datatype status = Done | Raises exn | Blocks

definition Queue :: "int \<Rightarrow> 'a pyqueue" where
  "Queue m = \<lparr>maxsize = m, items = []\<rparr>"

definition full :: "'a pyqueue \<Rightarrow> bool" where
  "full q = (0 < maxsize q \<and> maxsize q \<le> int (length (items q)))"

definition put :: "'a pyqueue \<Rightarrow> 'a \<Rightarrow> bool \<Rightarrow> 'a pyqueue \<times> status" where
  "put q x block =
     (if 0 < maxsize q \<and> maxsize q \<le> int (length (items q))
      then (q, if block then Blocks else Raises QueueFull)
      else (q\<lparr>items := items q @ [x]\<rparr>, Done))"

definition get_nowait :: "'a pyqueue \<Rightarrow> 'a pyqueue \<times> status" where
  "get_nowait q = (case items q of [] \<Rightarrow> (q, Raises QueueEmpty)
                                  | x # xs \<Rightarrow> (q\<lparr>items := xs\<rparr>, Done))"

text \<open>
  The statements \<open>if self.frame_queue.full(): self.frame_queue.get_nowait()\<close> and
  \<open>self.frame_queue.put(frame, block=False)\<close> of the capture thread.
\<close>

definition queue_push :: "'a pyqueue \<Rightarrow> 'a \<Rightarrow> 'a pyqueue \<times> status" where
  "queue_push q x =
     (if full q
      then (let (q1, st) = get_nowait q in if st = Done then put q1 x False else (q1, st))
      else put q x False)"

text \<open>A queue with a positive capacity that holds no more than its capacity.\<close>

definition bounded :: "'a pyqueue \<Rightarrow> bool" where
  "bounded q = (0 < maxsize q \<and> int (length (items q)) \<le> maxsize q)"

text \<open>
  The fields of \<open>ScreenCapturer\<close> the capture path uses. \<open>retry_count\<close> is the local
  variable of \<open>_capture_thread_func\<close>; \<open>sleeps\<close> lists the thread's \<open>time.sleep\<close> calls in
  milliseconds, oldest first.
\<close>

record capturer =
  frame_queue :: "image pyqueue"
  prev_frame :: "image option"
  frame_count :: nat
  exclude_regions :: "region list"
  log_interval :: int
  retry_count :: nat
  sleeps :: "nat list"

text \<open>
  The capturer as \<open>__init__\<close> leaves it, for the configured \<open>queue_size\<close> and
  \<open>log_interval\<close>.
\<close>

definition new_capturer :: "int \<Rightarrow> int \<Rightarrow> capturer" where
  "new_capturer queue_size interval =
     \<lparr>frame_queue = Queue queue_size, prev_frame = None, frame_count = 0, exclude_regions = [],
      log_interval = interval, retry_count = 0, sleeps = []\<rparr>"

definition sleep :: "nat \<Rightarrow> capturer \<Rightarrow> capturer" where
  "sleep ms c = c\<lparr>sleeps := sleeps c @ [ms]\<rparr>"

text \<open>
  One pass of the \<open>while\<close> loop sees either that less than 10 ms have passed since the
  last capture, or the outcome of \<open>sct.grab\<close>.
\<close>

datatype tick = TooSoon | Capture grab

text \<open>The body of the \<open>try\<close> of the loop, with the exception that leaves it, if any.\<close>

definition loop_try :: "capturer \<Rightarrow> tick \<Rightarrow> capturer \<times> status" where
  "loop_try c t = (case t of
      TooSoon \<Rightarrow> (sleep 1 c, Done)
    | Capture g \<Rightarrow>
        (case capture_screen (exclude_regions c) g of
           Some frame \<Rightarrow>
             (let c1 = c\<lparr>frame_count := frame_count c + 1\<rparr>;
                  (q, st) = queue_push (frame_queue c1) frame;
                  c2 = c1\<lparr>frame_queue := q\<rparr>
              in if st = Done then (c2\<lparr>retry_count := 0\<rparr>, Done)
                 else if st = Raises QueueFull then (c2, Done)
                 else (c2, st))
         | None \<Rightarrow>
             (let c1 = c\<lparr>retry_count := retry_count c + 1\<rparr>
              in if retry_count c1 > 5 then (sleep 100 (c1\<lparr>retry_count := 0\<rparr>), Done)
                 else (c1, Done))))"

text \<open>The handler \<open>except Exception\<close> of the loop.\<close>

definition on_exception :: "capturer \<Rightarrow> capturer" where
  "on_exception c =
     (let c1 = c\<lparr>retry_count := retry_count c + 1\<rparr>;
          c2 = (if retry_count c1 > 5 then c1\<lparr>retry_count := 0\<rparr> else c1)
      in sleep 100 c2)"

definition capture_iteration :: "capturer \<Rightarrow> tick \<Rightarrow> capturer \<times> status" where
  "capture_iteration c t =
     (let (c1, st) = loop_try c t
      in case st of Done \<Rightarrow> (c1, Done)
                  | Raises e \<Rightarrow> (on_exception c1, Done)
                  | Blocks \<Rightarrow> (c1, Blocks))"

text \<open>
  \<open>_capture_thread_func\<close>: the loop runs until \<open>stop_event\<close> is set. Each list element is
  one test of the loop condition (whether \<open>stop_event\<close> is set) and what the pass sees.
  The result tells whether the thread is still in the loop, stalled in a blocking call,
  or has left the loop.
\<close>

datatype thread = InLoop | Stalled | Exited

fun capture_thread_func :: "capturer \<Rightarrow> (bool \<times> tick) list \<Rightarrow> capturer \<times> thread" where
  "capture_thread_func c [] = (c, InLoop)"
| "capture_thread_func c ((stop_set, t) # rest) =
     (if stop_set then (c, Exited)
      else (case capture_iteration c t of
              (c1, Done) \<Rightarrow> capture_thread_func c1 rest
            | (c1, Blocks) \<Rightarrow> (c1, Stalled)
            | (c1, Raises e) \<Rightarrow> (c1, Exited)))"

text \<open>
  \<open>get_frame\<close>. The blocking \<open>get\<close> with its timeout yields the oldest queued frame or
  raises \<open>queue.Empty\<close>. The fallback opens a new \<open>mss\<close> context, which may raise, and
  calls \<open>_capture_screen\<close>. The result is a frame, \<open>None\<close>, or an exception that leaves
  \<open>get_frame\<close>.
\<close>

datatype direct = MssRaised | Direct grab

definition get_frame :: "capturer \<Rightarrow> direct \<Rightarrow> capturer \<times> (exn + image option)" where
  "get_frame c d = (case items (frame_queue c) of
      frame # rest \<Rightarrow>
        (let c1 = c\<lparr>frame_queue := (frame_queue c)\<lparr>items := rest\<rparr>, prev_frame := Some frame\<rparr>
         in if log_interval c1 = 0
            then (c1, Inr (case prev_frame c1 of Some p \<Rightarrow> Some p | None \<Rightarrow> None))
            else (c1, Inr (Some frame)))
    | [] \<Rightarrow>
        (case prev_frame c of
           Some p \<Rightarrow> (c, Inr (Some p))
         | None \<Rightarrow> (case d of MssRaised \<Rightarrow> (c, Inl MssError)
                              | Direct g \<Rightarrow> (c, Inr (capture_screen (exclude_regions c) g)))))"

text \<open>
  The capture thread and the caller of \<open>get_frame\<close> interleaved: a run of loop passes and
  calls, with the results of the calls in order.
\<close>

datatype event = Pass tick | Call direct

fun run :: "capturer \<Rightarrow> event list \<Rightarrow> capturer \<times> (exn + image option) list" where
  "run c [] = (c, [])"
| "run c (Pass t # evs) = run (fst (capture_iteration c t)) evs"
| "run c (Call d # evs) =
     (let (c1, r) = get_frame c d; (c2, rs) = run c1 evs in (c2, r # rs))"



section \<open>The mosaic\<close>

text \<open>
  \<open>cv2.resize\<close> belongs to OpenCV, not to the repository. Its result has the requested
  size; it raises on an empty source or a size that is not positive. Nearest-neighbour
  sampling picks the source pixel at the scaled index. The pixel values of linear
  sampling are a parameter \<open>lin\<close> of everything below: given the source, the target
  width and height, and a target row and column, it yields the pixel.
\<close>

datatype interpolation = INTER_NEAREST | INTER_LINEAR

type_synonym sampler = "image \<Rightarrow> nat \<Rightarrow> nat \<Rightarrow> nat \<Rightarrow> nat \<Rightarrow> pixel"

definition nearest_index :: "nat \<Rightarrow> nat \<Rightarrow> nat \<Rightarrow> nat" where
  "nearest_index src_n dst_n k = min ((k * src_n) div dst_n) (src_n - 1)"

definition nearest :: sampler where
  "nearest src dst_w dst_h i j =
     src ! nearest_index (shape0 src) dst_h i ! nearest_index (shape1 src) dst_w j"

definition resample :: "sampler \<Rightarrow> image \<Rightarrow> nat \<Rightarrow> nat \<Rightarrow> image" where
  "resample smp src w h = map (\<lambda>i. map (\<lambda>j. smp src w h i j) [0..<w]) [0..<h]"

definition cv2_resize :: "sampler \<Rightarrow> image \<Rightarrow> int \<times> int \<Rightarrow> interpolation \<Rightarrow> exn + image" where
  "cv2_resize lin src dsize interpolation = (case dsize of (w, h) \<Rightarrow>
     if image_size src = 0 \<or> w \<le> 0 \<or> h \<le> 0 then Inl Cv2Error
     else Inr (resample (case interpolation of INTER_NEAREST \<Rightarrow> nearest | INTER_LINEAR \<Rightarrow> lin)
                 src (nat w) (nat h)))"

text \<open>Python's \<open>//\<close> on integers: floor division, \<open>ZeroDivisionError\<close> on a zero divisor.\<close>

definition floordiv :: "int \<Rightarrow> int \<Rightarrow> exn + int" where
  "floordiv a b = (if b = 0 then Inl ZeroDivisionError else Inr (a div b))"

text \<open>The body of the \<open>try\<close> in \<open>apply_mosaic\<close>.\<close>

definition mosaic_try :: "sampler \<Rightarrow> image \<Rightarrow> int \<Rightarrow> exn + image" where
  "mosaic_try lin img strength =
     (let h = int (shape0 img); w = int (shape1 img) in
      case floordiv h strength of Inl e \<Rightarrow> Inl e | Inr qh \<Rightarrow>
      (case floordiv w strength of Inl e \<Rightarrow> Inl e | Inr qw \<Rightarrow>
      (let small_h = max 1 qh; small_w = max 1 qw in
       case cv2_resize lin img (small_w, small_h) INTER_LINEAR of Inl e \<Rightarrow> Inl e | Inr small \<Rightarrow>
         cv2_resize lin small (w, h) INTER_NEAREST)))"

text \<open>
  \<open>apply_mosaic(image, strength=None)\<close>; \<open>self_strength\<close> is \<open>self.strength\<close>. The result
  is a sum so that an exception leaving the function would show as \<open>Inl\<close>.
\<close>

definition apply_mosaic :: "sampler \<Rightarrow> int \<Rightarrow> image \<Rightarrow> int option \<Rightarrow> exn + image" where
  "apply_mosaic lin self_strength img strength =
     (let strength = (case strength of None \<Rightarrow> self_strength | Some s \<Rightarrow> s) in
      if image_size img = 0 then Inr img
      else (case mosaic_try lin img strength of Inl e \<Rightarrow> Inr img | Inr mosaic \<Rightarrow> Inr mosaic))"

text \<open>
  The mosaic as the specification words it: the region scaled down to
  \<open>max(1, dim/strength)\<close> per axis with linear sampling, then scaled back to its own size
  with nearest-neighbour sampling.
\<close>

definition mosaic_spec :: "sampler \<Rightarrow> image \<Rightarrow> int \<Rightarrow> image" where
  "mosaic_spec lin img strength =
     resample nearest
       (resample lin img (nat (max 1 (int (shape1 img) div strength)))
                         (nat (max 1 (int (shape0 img) div strength))))
       (shape1 img) (shape0 img)"

text \<open>
  A concrete linear sampler for the examples: bilinear interpolation between pixel
  centres in exact arithmetic, rounded to the nearest value. \<open>lin_coord\<close> gives, for a
  target index, the two source indices and the weight of the second (in units of twice
  the target length).
\<close>

definition lin_coord :: "nat \<Rightarrow> nat \<Rightarrow> nat \<Rightarrow> nat \<times> nat \<times> nat" where
  "lin_coord src_n dst_n k =
     (let num = (2 * int k + 1) * int src_n - int dst_n; den = 2 * int dst_n;
          s = num div den; f = num mod den in
      if num < 0 then (0, 0, 0)
      else if s \<ge> int src_n - 1 then (src_n - 1, src_n - 1, 0)
      else (nat s, nat s + 1, nat f))"

definition blend :: "nat \<Rightarrow> nat \<Rightarrow> nat \<Rightarrow> nat \<Rightarrow> 8 word \<Rightarrow> 8 word \<Rightarrow> 8 word \<Rightarrow> 8 word \<Rightarrow> 8 word" where
  "blend fy ey fx ex p00 p01 p10 p11 =
     of_nat ((2 * ((ey - fy) * ((ex - fx) * unat p00 + fx * unat p01) +
                   fy * ((ex - fx) * unat p10 + fx * unat p11)) + ey * ex) div (2 * ey * ex))"

definition bilinear :: sampler where
  "bilinear src dst_w dst_h i j =
     (case lin_coord (shape0 src) dst_h i of (y0, y1, fy) \<Rightarrow>
      case lin_coord (shape1 src) dst_w j of (x0, x1, fx) \<Rightarrow>
      case (src ! y0 ! x0, src ! y0 ! x1, src ! y1 ! x0, src ! y1 ! x1) of
        ((b00, g00, r00), (b01, g01, r01), (b10, g10, r10), (b11, g11, r11)) \<Rightarrow>
          (blend fy (2 * dst_h) fx (2 * dst_w) b00 b01 b10 b11,
           blend fy (2 * dst_h) fx (2 * dst_w) g00 g01 g10 g11,
           blend fy (2 * dst_h) fx (2 * dst_w) r00 r01 r10 r11))"

section \<open>One pass of the processing loop\<close>

text \<open>
  A detection as \<open>detect_objects\<close> builds it. The confidence is not used by the mosaic
  step; its type is left open.
\<close>

record 'c detection =
  class_name :: string
  confidence :: 'c
  bbox :: "int \<times> int \<times> int \<times> int"
  class_id :: nat

text \<open>
  The loop over the detections in \<open>processing_loop\<close> (and, with \<open>self.strength\<close>, in
  \<open>detect_objects_detailed\<close>): a detection whose class is a target has its box cut out of
  the frame, pixelated and written back. The statistics counters and the log lines of
  the loop are left out.
\<close>

fun mosaic_detections ::
  "sampler \<Rightarrow> int \<Rightarrow> string list \<Rightarrow> int option \<Rightarrow> image \<Rightarrow> 'c detection list \<Rightarrow> exn + image" where
  "mosaic_detections lin self_strength targets strength processed_frame [] = Inr processed_frame"
| "mosaic_detections lin self_strength targets strength processed_frame (d # ds) =
     (if class_name d \<in> set targets
      then (case bbox d of (x1, y1, x2, y2) \<Rightarrow>
        (let region = get_slice processed_frame y1 y2 x1 x2 in
         if image_size region > 0
         then (case apply_mosaic lin self_strength region strength of
                 Inl e \<Rightarrow> Inl e
               | Inr mosaic_region \<Rightarrow>
                   (case set_slice processed_frame y1 y2 x1 x2 mosaic_region of
                      Inl e \<Rightarrow> Inl e
                    | Inr f \<Rightarrow> mosaic_detections lin self_strength targets strength f ds))
         else mosaic_detections lin self_strength targets strength processed_frame ds))
      else mosaic_detections lin self_strength targets strength processed_frame ds)"

text \<open>
  What \<open>processing_loop\<close> hands to \<open>overlay.update_frame\<close> for one captured frame: the
  copy of the frame after the loop over the detections, with the strength read from
  the slider variable.
\<close>

definition processing_loop_frame ::
  "sampler \<Rightarrow> int \<Rightarrow> string list \<Rightarrow> int \<Rightarrow> image \<Rightarrow> 'c detection list \<Rightarrow> exn + image" where
  "processing_loop_frame lin self_strength targets strength_var original_frame detections =
     mosaic_detections lin self_strength targets (Some strength_var) original_frame detections"

text \<open>\<open>detect_objects_detailed\<close>: the same loop with \<open>self.strength\<close>.\<close>

definition detect_objects_detailed ::
  "sampler \<Rightarrow> int \<Rightarrow> string list \<Rightarrow> image \<Rightarrow> 'c detection list \<Rightarrow> exn + image \<times> 'c detection list" where
  "detect_objects_detailed lin self_strength targets frame detections =
     (case mosaic_detections lin self_strength targets (Some self_strength) frame detections of
        Inl e \<Rightarrow> Inl e
      | Inr processed_frame \<Rightarrow> Inr (processed_frame, detections))"

text \<open>The pixels of the frame that the box of a detection contains.\<close>

definition in_bbox :: "int \<times> int \<times> int \<times> int \<Rightarrow> nat \<Rightarrow> nat \<Rightarrow> bool" where
  "in_bbox b i j = (case b of (x1, y1, x2, y2) \<Rightarrow>
     y1 \<le> int i \<and> int i < y2 \<and> x1 \<le> int j \<and> int j < x2)"

text \<open>The far corner \<open>(x2, y2)\<close> of a box is not negative.\<close>

definition far_corner_nonneg :: "int \<times> int \<times> int \<times> int \<Rightarrow> bool" where
  "far_corner_nonneg b = (case b of (x1, y1, x2, y2) \<Rightarrow> 0 \<le> x2 \<and> 0 \<le> y2)"

section \<open>The overlay window\<close>

text \<open>
  The calls into pygame and the Win32 API that the overlay makes; \<open>calls\<close> of the
  overlay lists them in the order made.
\<close>

datatype call =
    PygameInit | DisplayInfo | SetMode | FontInit | ClockInit
  | GetWmInfo | SetWindowDisplayAffinity | SetClickThrough | SetWindowPosTopmost
  | TestClickThrough | RetryClickThrough | SetWindowsHook | StartTopmostKeeper
  | StartDisplayThread | UnhookWindowsHook | StopTopmostKeeper | JoinDisplayThread
  | DisplayQuit | PygameQuit

text \<open>
  What the platform does during one call of \<open>show\<close>, \<open>hide\<close>, \<open>start_censoring\<close> or
  \<open>stop_censoring\<close>: which pygame and Win32 calls raise, what they return, and which
  threads are alive. \<open>HAS_WIN32\<close> is the module constant of the overlay module;
  \<open>win32gui_importable\<close> tells whether \<open>import win32gui\<close> in \<open>start_censoring\<close> goes
  through. Starting a thread, joining one and printing are taken not to raise.
\<close>

record platform =
  HAS_WIN32 :: bool
  win32gui_importable :: bool
  init_raises :: bool
  info_raises :: bool
  set_mode_raises :: bool
  font_raises :: bool
  clock_raises :: bool
  wm_info_raises :: bool
  wm_window :: "nat option"
  set_window_pos_raises :: bool
  click_through_test :: bool
  hook_raises :: bool
  hook_result :: nat
  unhook_raises :: bool
  topmost_alive :: bool
  display_alive :: bool
  display_quit_raises :: bool

text \<open>
  The fields of \<open>PygameOverlayWindow\<close> that showing and hiding touch. \<open>screen\<close>, \<open>clock\<close>,
  \<open>font\<close> and the thread fields tell whether the field holds an object or \<open>None\<close>;
  \<open>topmost_stop_event\<close> tells whether the event is set. A handle is a number, and zero
  is false in Python.
\<close>

record overlay_window =
  show_debug_info :: bool
  is_visible :: bool
  is_running :: bool
  current_frame :: "image option"
  screen :: bool
  clock :: bool
  font :: bool
  hwnd :: "nat option"
  display_thread :: bool
  topmost_thread :: bool
  topmost_stop_event :: bool
  force_topmost :: bool
  hook_installed :: bool
  hook_handle :: "nat option"
  calls :: "call list"

definition new_overlay :: "bool \<Rightarrow> overlay_window" where
  "new_overlay debug_info =
     \<lparr>show_debug_info = debug_info, is_visible = False, is_running = False,
      current_frame = None, screen = False, clock = False, font = False, hwnd = None,
      display_thread = False, topmost_thread = False, topmost_stop_event = False,
      force_topmost = False,
      hook_installed = False, hook_handle = None, calls = []\<rparr>"

definition truthy :: "nat option \<Rightarrow> bool" where
  "truthy h = (case h of None \<Rightarrow> False | Some n \<Rightarrow> n \<noteq> 0)"

definition called :: "call list \<Rightarrow> overlay_window \<Rightarrow> overlay_window" where
  "called cs ov = ov\<lparr>calls := calls ov @ cs\<rparr>"

definition install_activation_hook :: "platform \<Rightarrow> overlay_window \<Rightarrow> overlay_window" where
  "install_activation_hook env ov =
     (if \<not> HAS_WIN32 env \<or> \<not> truthy (hwnd ov) then ov
      else if hook_raises env then called [SetWindowsHook] ov
      else (let ov1 = called [SetWindowsHook] (ov\<lparr>hook_handle := Some (hook_result env)\<rparr>)
            in if hook_result env \<noteq> 0 then ov1\<lparr>hook_installed := True\<rparr> else ov1))"

definition uninstall_activation_hook :: "platform \<Rightarrow> overlay_window \<Rightarrow> overlay_window" where
  "uninstall_activation_hook env ov =
     (if hook_installed ov \<and> truthy (hook_handle ov)
      then (if unhook_raises env then called [UnhookWindowsHook] ov
            else called [UnhookWindowsHook] (ov\<lparr>hook_installed := False, hook_handle := None\<rparr>))
      else ov)"

definition start_topmost_keeper :: "platform \<Rightarrow> overlay_window \<Rightarrow> overlay_window" where
  "start_topmost_keeper env ov =
     (if \<not> HAS_WIN32 env \<or> \<not> truthy (hwnd ov) then ov
      else called [StartTopmostKeeper]
             (ov\<lparr>topmost_stop_event := False, topmost_thread := True\<rparr>))"

definition stop_topmost_keeper :: "platform \<Rightarrow> overlay_window \<Rightarrow> overlay_window" where
  "stop_topmost_keeper env ov =
     (if topmost_thread ov \<and> topmost_alive env
      then called [StopTopmostKeeper] (ov\<lparr>topmost_stop_event := True\<rparr>)
      else ov)"

text \<open>
  \<open>set_window_click_through_and_capture_protected\<close>, the protection sequence. The
  capture exclusion and the click-through step catch their own exceptions and only
  print; an exception of the \<open>SetWindowPos\<close> call ends the sequence. No exception leaves
  the function.
\<close>

definition set_window_click_through_and_capture_protected ::
  "platform \<Rightarrow> overlay_window \<Rightarrow> overlay_window" where
  "set_window_click_through_and_capture_protected env ov =
     (if \<not> HAS_WIN32 env then ov
      else if wm_info_raises env then called [GetWmInfo] ov
      else (case wm_window env of
              None \<Rightarrow> called [GetWmInfo] ov
            | Some h \<Rightarrow>
                (let ov1 = called [GetWmInfo] (ov\<lparr>hwnd := Some h\<rparr>) in
                 if h = 0 then ov1
                 else (let ov2 = called [SetWindowDisplayAffinity, SetClickThrough] ov1 in
                       if set_window_pos_raises env then called [SetWindowPosTopmost] ov2
                       else (let ov3 = called [SetWindowPosTopmost, TestClickThrough] ov2;
                                 ov4 = (if click_through_test env then ov3
                                        else called [RetryClickThrough] ov3);
                                 ov5 = ov4\<lparr>force_topmost := True\<rparr>
                             in start_topmost_keeper env (install_activation_hook env ov5))))))"

text \<open>
  The native window creation of \<open>init_pygame\<close>: pygame and the display information, the
  borderless window, the debug font when debug information is on, and the clock. The
  result tells whether every step went through; the first step that raises ends it.
\<close>

definition create_window :: "platform \<Rightarrow> overlay_window \<Rightarrow> overlay_window \<times> bool" where
  "create_window env ov =
     (if init_raises env then (called [PygameInit] ov, False)
      else if info_raises env then (called [PygameInit, DisplayInfo] ov, False)
      else if set_mode_raises env then (called [PygameInit, DisplayInfo, SetMode] ov, False)
      else (let ov1 = called [PygameInit, DisplayInfo, SetMode] (ov\<lparr>screen := True\<rparr>) in
            if show_debug_info ov1 \<and> font_raises env then (called [FontInit] ov1, False)
            else (let ov2 = (if show_debug_info ov1 then called [FontInit] (ov1\<lparr>font := True\<rparr>)
                             else ov1)
                  in if clock_raises env then (called [ClockInit] ov2, False)
                     else (called [ClockInit] (ov2\<lparr>clock := True\<rparr>), True))))"

text \<open>
  \<open>init_pygame\<close>: the window creation, then on Windows the protection sequence; any
  exception of the window creation makes it return \<open>False\<close>.
\<close>

definition init_pygame :: "platform \<Rightarrow> overlay_window \<Rightarrow> overlay_window \<times> bool" where
  "init_pygame env ov =
     (let (ov1, created) = create_window env ov in
      if \<not> created then (ov1, False)
      else if HAS_WIN32 env then (set_window_click_through_and_capture_protected env ov1, True)
      else (ov1, True))"

text \<open>
  \<open>show\<close>. The result is \<open>True\<close>, \<open>False\<close>, or \<open>None\<close>: the bare \<open>return\<close> for a window that
  is already visible.
\<close>

definition show_overlay :: "platform \<Rightarrow> overlay_window \<Rightarrow> overlay_window \<times> bool option" where
  "show_overlay env ov =
     (if is_visible ov then (ov, None)
      else (let (ov1, ok) = init_pygame env ov in
            if \<not> ok then (ov1, Some False)
            else (called [StartDisplayThread]
                    (ov1\<lparr>is_visible := True, is_running := True, display_thread := True\<rparr>),
                  Some True)))"

text \<open>\<open>hide\<close>.\<close>

definition hide :: "platform \<Rightarrow> overlay_window \<Rightarrow> overlay_window" where
  "hide env ov =
     (if \<not> is_visible ov then ov
      else (let ov1 = ov\<lparr>is_visible := False, is_running := False, force_topmost := False\<rparr>;
                ov2 = uninstall_activation_hook env ov1;
                ov3 = stop_topmost_keeper env ov2;
                ov4 = (if display_thread ov3 \<and> display_alive env
                       then called [JoinDisplayThread] ov3 else ov3)
            in if screen ov4
               then (if display_quit_raises env then called [DisplayQuit] ov4
                     else called [DisplayQuit, PygameQuit] ov4)
               else called [PygameQuit] ov4))"


definition is_window_visible :: "overlay_window \<Rightarrow> bool" where
  "is_window_visible ov = (is_visible ov \<and> is_running ov)"


section \<open>Starting and stopping the application\<close>

text \<open>
  The fields of \<open>MosaicApp\<close> that starting and stopping touch. \<open>app_running\<close> is
  \<open>self.is_running\<close>; \<open>process_thread\<close> tells whether the field holds a thread; the label
  and the log hold which of the fixed texts was written. The detector settings and the
  statistics are left out.
\<close>

datatype label_text = Waiting | Censoring

datatype message = Stopping | Stopped | OverlayStartFailed | Started | Settings
  | WindowsEnabled | Pywin32Missing

record app =
  app_running :: bool
  overlay :: overlay_window
  process_thread :: bool
  status_label :: label_text
  start_button_enabled :: bool
  stop_button_enabled :: bool
  log_text :: "message list"

definition new_app :: "bool \<Rightarrow> app" where
  "new_app debug_info =
     \<lparr>app_running = False, overlay = new_overlay debug_info, process_thread = False,
      status_label = Waiting, start_button_enabled = True, stop_button_enabled = False,
      log_text = []\<rparr>"

definition log_message :: "message \<Rightarrow> app \<Rightarrow> app" where
  "log_message m a = a\<lparr>log_text := log_text a @ [m]\<rparr>"

text \<open>
  \<open>stop_censoring\<close>. Joining the processing thread changes no field.
\<close>

definition stop_censoring :: "platform \<Rightarrow> app \<Rightarrow> app" where
  "stop_censoring env a =
     (if \<not> app_running a then a
      else (let a1 = log_message Stopping a;
                a2 = a1\<lparr>app_running := False\<rparr>;
                a3 = a2\<lparr>overlay := hide env (overlay a2)\<rparr>;
                a4 = a3\<lparr>status_label := Waiting, start_button_enabled := True,
                         stop_button_enabled := False\<rparr>
            in log_message Stopped a4))"

text \<open>
  \<open>start_censoring\<close>, for the selected targets, the answer to the confirmation dialogue
  and the debug check box. \<open>show\<close> returning \<open>None\<close> counts as a failure here, as \<open>not None\<close>
  is true.
\<close>

definition start_censoring ::
  "platform \<Rightarrow> string list \<Rightarrow> bool \<Rightarrow> bool \<Rightarrow> app \<Rightarrow> app" where
  "start_censoring env selected_targets confirmed show_debug_info_var a =
     (if app_running a then a
      else if selected_targets = [] then a
      else if \<not> confirmed then a
      else (let a1 = a\<lparr>overlay := (overlay a)\<lparr>show_debug_info := show_debug_info_var\<rparr>\<rparr>;
                a2 = a1\<lparr>app_running := True, status_label := Censoring,
                         start_button_enabled := False, stop_button_enabled := True\<rparr>;
                (ov, result) = show_overlay env (overlay a2);
                a3 = a2\<lparr>overlay := ov\<rparr>
            in if result \<noteq> Some True
               then stop_censoring env (log_message OverlayStartFailed a3)
               else (let a4 = log_message Settings
                                (log_message Started (a3\<lparr>process_thread := True\<rparr>))
                     in if win32gui_importable env then log_message WindowsEnabled a4
                        else log_message Pywin32Missing a4)))"

section \<open>Example data\<close>

text \<open>A frame of two rows and two columns, every pixel \<open>(9, 9, 9)\<close>.\<close>

definition frame2 :: image where
  "frame2 = [[(9, 9, 9), (9, 9, 9)], [(9, 9, 9), (9, 9, 9)]]"

text \<open>A frame of one pixel.\<close>

definition frame1 :: image where
  "frame1 = [[(1, 2, 3)]]"

text \<open>A full queue of capacity two: \<open>frame2\<close> is the oldest entry.\<close>

definition queue_ab :: "image pyqueue" where
  "queue_ab = \<lparr>maxsize = 2, items = [frame2, frame1]\<rparr>"

text \<open>A capturer whose \<open>get_frame\<close> has taken \<open>frame1\<close> from the queue before.\<close>

definition capturer_after_get :: capturer where
  "capturer_after_get = (new_capturer 2 100)\<lparr>prev_frame := Some frame1\<rparr>"

text \<open>A 2 x 2 region with one dark pixel; its mean is \<open>(150, 75, 30)\<close>.\<close>

definition frame_quad :: image where
  "frame_quad = [[(0, 0, 0), (200, 100, 40)], [(200, 100, 40), (200, 100, 40)]]"

text \<open>A 4 x 4 frame that holds that region in its middle, and the frame after the
  middle has been pixelated with strength 15.\<close>

definition frame4 :: image where
  "frame4 = [[(9, 9, 9), (9, 9, 9), (9, 9, 9), (9, 9, 9)],
             [(9, 9, 9), (0, 0, 0), (200, 100, 40), (9, 9, 9)],
             [(9, 9, 9), (200, 100, 40), (200, 100, 40), (9, 9, 9)],
             [(9, 9, 9), (9, 9, 9), (9, 9, 9), (9, 9, 9)]]"

definition frame4_mosaic :: image where
  "frame4_mosaic = [[(9, 9, 9), (9, 9, 9), (9, 9, 9), (9, 9, 9)],
                    [(9, 9, 9), (150, 75, 30), (150, 75, 30), (9, 9, 9)],
                    [(9, 9, 9), (150, 75, 30), (150, 75, 30), (9, 9, 9)],
                    [(9, 9, 9), (9, 9, 9), (9, 9, 9), (9, 9, 9)]]"

text \<open>
  Detections: a face inside the frame, a hand (not a target) in the corner, and a face
  whose box has negative coordinates.
\<close>

definition face_inside :: "nat detection" where
  "face_inside = \<lparr>class_name = ''face'', confidence = 90, bbox = (1, 1, 3, 3), class_id = 0\<rparr>"

definition hand_corner :: "nat detection" where
  "hand_corner = \<lparr>class_name = ''hand'', confidence = 80, bbox = (0, 0, 2, 2), class_id = 9\<rparr>"


text \<open>A platform on which every call goes through, with Win32 present.\<close>

definition windows_ok :: platform where
  "windows_ok =
     \<lparr>HAS_WIN32 = True, win32gui_importable = True, init_raises = False,
      info_raises = False, set_mode_raises = False, font_raises = False,
      clock_raises = False, wm_info_raises = False, wm_window = Some 4242,
      set_window_pos_raises = False, click_through_test = True, hook_raises = False,
      hook_result = 77, unhook_raises = False, topmost_alive = True, display_alive = True,
      display_quit_raises = False\<rparr>"


section \<open>Properties of the exclusion masking\<close>

lemma length_fill_slice: "length (fill_slice img r0 r1 c0 c1 v) = length img"
  by (simp add: fill_slice_def Let_def)

lemma length_row_fill_slice:
  "i < length img \<Longrightarrow> length (fill_slice img r0 r1 c0 c1 v ! i) = length (img ! i)"
  by (simp add: fill_slice_def Let_def)

lemma nth_fill_slice:
  "i < length img \<Longrightarrow> j < length (img ! i) \<Longrightarrow>
   fill_slice img r0 r1 c0 c1 v ! i ! j =
     (if slice_index (shape0 img) r0 \<le> i \<and> i < slice_index (shape0 img) r1 \<and>
         slice_index (shape1 img) c0 \<le> j \<and> j < slice_index (shape1 img) c1
      then v else img ! i ! j)"
  by (simp add: fill_slice_def Let_def)

lemma shape0_fill_slice: "shape0 (fill_slice img r0 r1 c0 c1 v) = shape0 img"
  by (simp add: shape0_def length_fill_slice)

lemma shape1_fill_slice: "shape1 (fill_slice img r0 r1 c0 c1 v) = shape1 img"
proof (cases img)
  case Nil
  then show ?thesis by (simp add: fill_slice_def shape1_def Let_def)
next
  case (Cons r rs)
  then have "0 < length img" by simp
  then have "fill_slice img r0 r1 c0 c1 v \<noteq> []"
    using length_fill_slice [of img r0 r1 c0 c1 v] by auto
  then obtain r' rs' where f: "fill_slice img r0 r1 c0 c1 v = r' # rs'"
    by (cases "fill_slice img r0 r1 c0 c1 v") auto
  have "length r' = length (fill_slice img r0 r1 c0 c1 v ! 0)" using f by simp
  also have "\<dots> = length (img ! 0)"
    using length_row_fill_slice [of 0 img] Cons by simp
  finally show ?thesis using f Cons by (simp add: shape1_def)
qed

lemma mask_region_shape:
  "shape0 (mask_region img rg) = shape0 img \<and> shape1 (mask_region img rg) = shape1 img \<and>
   length (mask_region img rg) = length img"
  by (cases rg) (simp add: shape0_fill_slice shape1_fill_slice length_fill_slice Let_def)

lemma mask_region_row:
  "i < length img \<Longrightarrow> length (mask_region img rg ! i) = length (img ! i)"
  by (cases rg) (simp add: length_row_fill_slice Let_def)

lemma mask_region_pixel:
  "i < length img \<Longrightarrow> j < length (img ! i) \<Longrightarrow>
   mask_region img rg ! i ! j = black \<or> mask_region img rg ! i ! j = img ! i ! j"
  by (cases rg) (simp add: nth_fill_slice Let_def)

lemma mask_region_covers:
  assumes "origin_inside img rg" "in_region rg i j" "i < length img" "j < length (img ! i)"
    "j < shape1 img"
  shows "mask_region img rg ! i ! j = black"
proof -
  obtain x y w h where rg: "rg = (x, y, w, h)" by (cases rg) auto
  from assms rg have g: "x \<ge> 0" "y \<ge> 0" "x < int (shape1 img)" "y < int (shape0 img)"
    by (auto simp: origin_inside_def)
  from assms rg have r: "y \<le> int i" "int i < y + h" "x \<le> int j" "int j < x + w"
    by (auto simp: in_region_def)
  have i: "i < shape0 img" using assms by (simp add: shape0_def)
  have a: "slice_index (shape0 img) y \<le> i" using g r by (simp add: slice_index_def)
  have b: "i < slice_index (shape0 img) (min (y + h) (int (shape0 img)))"
    using g r i by (auto simp: slice_index_def min_def)
  have c: "slice_index (shape1 img) x \<le> j" using g r by (simp add: slice_index_def)
  have d: "j < slice_index (shape1 img) (min (x + w) (int (shape1 img)))"
    using g r assms(5) by (auto simp: slice_index_def min_def)
  show ?thesis
    using g a b c d assms(3,4) by (simp add: rg nth_fill_slice Let_def)
qed

lemma mask_region_skips: "\<not> origin_inside img rg \<Longrightarrow> mask_region img rg = img"
  by (cases rg) (auto simp: origin_inside_def)

lemma origin_inside_shape:
  "shape0 a = shape0 b \<Longrightarrow> shape1 a = shape1 b \<Longrightarrow> origin_inside a rg = origin_inside b rg"
  by (simp add: origin_inside_def)

lemma mask_regions_shape:
  "shape0 (mask_regions img rs) = shape0 img \<and> shape1 (mask_regions img rs) = shape1 img \<and>
   length (mask_regions img rs) = length img"
  unfolding mask_regions_def
  by (induction rs arbitrary: img) (simp_all add: mask_region_shape)

lemma mask_regions_row:
  "i < length img \<Longrightarrow> length (mask_regions img rs ! i) = length (img ! i)"
  unfolding mask_regions_def
  by (induction rs arbitrary: img) (simp_all add: mask_region_shape mask_region_row)

lemma mask_regions_pixel:
  "i < length img \<Longrightarrow> j < length (img ! i) \<Longrightarrow>
   mask_regions img rs ! i ! j = black \<or> mask_regions img rs ! i ! j = img ! i ! j"
  unfolding mask_regions_def
proof (induction rs arbitrary: img)
  case Nil
  then show ?case by simp
next
  case (Cons rg rs)
  let ?m = "mask_region img rg"
  have l: "i < length ?m" "j < length (?m ! i)"
    using Cons.prems by (simp_all add: mask_region_shape mask_region_row)
  from Cons.IH [OF l] mask_region_pixel [OF Cons.prems, of rg]
  show ?case by auto
qed

lemma mask_regions_keeps_black:
  "i < length img \<Longrightarrow> j < length (img ! i) \<Longrightarrow> img ! i ! j = black \<Longrightarrow>
   mask_regions img rs ! i ! j = black"
  using mask_regions_pixel [of i img j rs] by auto

lemma mask_regions_covers:
  assumes "rg \<in> set rs" "origin_inside img rg" "in_region rg i j"
    "i < length img" "j < length (img ! i)" "j < shape1 img"
  shows "mask_regions img rs ! i ! j = black"
  using assms unfolding mask_regions_def
proof (induction rs arbitrary: img)
  case Nil
  then show ?case by simp
next
  case (Cons a rs)
  let ?m = "mask_region img a"
  have l: "i < length ?m" "j < length (?m ! i)" "j < shape1 ?m"
    using Cons.prems by (simp_all add: mask_region_shape mask_region_row)
  show ?case
  proof (cases "rg = a")
    case True
    then have "?m ! i ! j = black" using Cons.prems mask_region_covers by blast
    then show ?thesis
      using mask_regions_keeps_black [OF l(1,2), of rs] by (simp add: mask_regions_def)
  next
    case False
    then have "rg \<in> set rs" using Cons.prems by simp
    moreover have "origin_inside ?m rg"
      using Cons.prems(2) origin_inside_shape [of ?m img rg] by (simp add: mask_region_shape)
    ultimately show ?thesis using Cons.IH [OF _ _ Cons.prems(3) l] by simp
  qed
qed

lemma mask_regions_skips:
  "\<forall>rg \<in> set rs. \<not> origin_inside img rg \<Longrightarrow> mask_regions img rs = img"
  unfolding mask_regions_def
  by (induction rs arbitrary: img) (simp_all add: mask_region_skips)

lemma rect_nth: "rect img \<Longrightarrow> i < shape0 img \<Longrightarrow> length (img ! i) = shape1 img"
  by (simp add: rect_def shape0_def list_all_length)

text \<open>
  C1, as the code has it. The capture step never fails because of an exclusion region
  and keeps the size of the frame. For every configured region whose origin \<open>(x, y)\<close>
  lies inside the frame, every frame pixel of the region (the region clipped to the
  frame) is zero afterwards. A region whose origin lies outside the frame is skipped by
  the coordinate check: it leaves the frame as it is, and when all regions are of that
  kind the captured frame is the grabbed one.
\<close>

theorem exclusion_masking_origin_inside:
  assumes "rect img"
  shows "\<exists>out. capture_screen regions (Grabbed img) = Some out \<and>
           shape0 out = shape0 img \<and> shape1 out = shape1 img \<and>
           (\<forall>rg \<in> set regions. \<forall>i j. origin_inside img rg \<and> i < shape0 img \<and> j < shape1 img \<and>
                in_region rg i j \<longrightarrow> out ! i ! j = black) \<and>
           (\<forall>rg. \<not> origin_inside img rg \<longrightarrow> mask_region img rg = img) \<and>
           ((\<forall>rg \<in> set regions. \<not> origin_inside img rg) \<longrightarrow> out = img)"
proof -
  let ?out = "mask_regions img regions"
  have "capture_screen regions (Grabbed img) = Some ?out" by simp
  moreover have "shape0 ?out = shape0 img" "shape1 ?out = shape1 img"
    by (simp_all add: mask_regions_shape)
  moreover have "?out ! i ! j = black"
    if "rg \<in> set regions" "origin_inside img rg" "i < shape0 img" "j < shape1 img"
      "in_region rg i j" for rg i j
  proof -
    have "i < length img" using that by (simp add: shape0_def)
    moreover have "j < length (img ! i)" using that assms by (simp add: rect_nth)
    ultimately show ?thesis using that mask_regions_covers by blast
  qed
  moreover have "mask_region img rg = img" if "\<not> origin_inside img rg" for rg
    using that by (rule mask_region_skips)
  moreover have "?out = img" if "\<forall>rg \<in> set regions. \<not> origin_inside img rg"
    using that by (rule mask_regions_skips)
  ultimately show ?thesis by blast
qed

theorem exclusion_masking_origin_inside_witness:
  "rect frame2 \<and>
   (\<exists>out. capture_screen [(1, 0, 3, 1), (5, 5, 1, 1)] (Grabbed frame2) = Some out \<and>
      shape0 out = 2 \<and> shape1 out = 2 \<and> out ! 0 ! 1 = black) \<and>
   mask_region frame2 (5, 5, 1, 1) = frame2"
proof -
  have h: "rect frame2" by code_simp
  have o: "(1, 0, 3, 1) \<in> set [(1, 0, 3, 1), (5, 5, 1, 1 :: int)]"
    "origin_inside frame2 (1, 0, 3, 1)" "in_region (1, 0, 3, 1) 0 1"
    "0 < shape0 frame2" "1 < shape1 frame2" "\<not> origin_inside frame2 (5, 5, 1, 1)"
    "shape0 frame2 = 2" "shape1 frame2 = 2"
    by (simp_all add: origin_inside_def in_region_def shape0_def shape1_def frame2_def)
  from exclusion_masking_origin_inside [OF h, of "[(1, 0, 3, 1), (5, 5, 1, 1)]"]
  obtain out where out: "capture_screen [(1, 0, 3, 1), (5, 5, 1, 1)] (Grabbed frame2) = Some out"
    "shape0 out = shape0 frame2" "shape1 out = shape1 frame2"
    "\<forall>rg \<in> set [(1, 0, 3, 1), (5, 5, 1, 1)]. \<forall>i j. origin_inside frame2 rg \<and> i < shape0 frame2 \<and>
       j < shape1 frame2 \<and> in_region rg i j \<longrightarrow> out ! i ! j = black"
    "\<forall>rg. \<not> origin_inside frame2 rg \<longrightarrow> mask_region frame2 rg = frame2"
    by blast
  have "out ! 0 ! 1 = black" using out(4) o by blast
  moreover have "mask_region frame2 (5, 5, 1, 1) = frame2" using out(5) o(6) by blast
  ultimately show ?thesis using h out(1,2,3) o(7,8) by auto
qed

text \<open>
  C1 as stated fails for a region that overlaps the frame but starts left of it (or
  above it): the region \<open>(-1, 0, 3, 1)\<close> covers the pixels \<open>(0, 0)\<close> and \<open>(0, 1)\<close> of a
  2 x 2 frame, the coordinate check \<open>x >= 0\<close> rejects it, and both pixels keep their
  value.
\<close>

theorem exclusion_masking_negative_origin_counterexample:
  "in_region (- 1, 0, 3, 1) 0 0 \<and> in_region (- 1, 0, 3, 1) 0 1 \<and> rect frame2 \<and>
   capture_screen [(- 1, 0, 3, 1)] (Grabbed frame2) = Some frame2 \<and>
   frame2 ! 0 ! 0 \<noteq> black \<and> frame2 ! 0 ! 1 \<noteq> black"
  by (simp add: in_region_def rect_def mask_regions_def shape0_def shape1_def frame2_def black_def)

section \<open>Properties of the frame queue and the capture thread\<close>

lemma put_nonblocking: "snd (put q x False) \<noteq> Blocks"
  by (simp add: put_def)

lemma get_nowait_not_blocks: "snd (get_nowait q) \<noteq> Blocks"
  by (simp add: get_nowait_def split: list.split)

lemma queue_push_not_blocks: "snd (queue_push q x) \<noteq> Blocks"
  using put_nonblocking [of q x] put_nonblocking [of "fst (get_nowait q)" x]
    get_nowait_not_blocks [of q]
  by (auto simp: queue_push_def Let_def split: prod.split)

lemma queue_push_maxsize: "maxsize (fst (queue_push q x)) = maxsize q"
  by (auto simp: queue_push_def put_def get_nowait_def Let_def split: prod.split list.split)

lemma queue_push_full:
  assumes "full q" "int (length (items q)) \<le> maxsize q"
  shows "queue_push q x = (q\<lparr>items := tl (items q) @ [x]\<rparr>, Done)"
proof -
  from assms(1) have m: "0 < maxsize q" "maxsize q \<le> int (length (items q))"
    by (simp_all add: full_def)
  then obtain y ys where i: "items q = y # ys" by (cases "items q") auto
  then have g: "get_nowait q = (q\<lparr>items := ys\<rparr>, Done)" by (simp add: get_nowait_def)
  have "int (length ys) < maxsize q" using assms(2) i by simp
  then have "put (q\<lparr>items := ys\<rparr>) x False = (q\<lparr>items := ys @ [x]\<rparr>, Done)"
    by (simp add: put_def)
  then show ?thesis using assms(1) g i by (simp add: queue_push_def)
qed

lemma queue_push_not_full:
  assumes "\<not> full q"
  shows "queue_push q x = (q\<lparr>items := items q @ [x]\<rparr>, Done)"
proof -
  have "put q x False = (q\<lparr>items := items q @ [x]\<rparr>, Done)"
    using assms by (auto simp: put_def full_def)
  then show ?thesis using assms by (simp add: queue_push_def)
qed

lemma queue_push_bounded:
  assumes "bounded q"
  shows "bounded (fst (queue_push q x))"
proof (cases "full q")
  case True
  then obtain y ys where "items q = y # ys" by (cases "items q") (auto simp: full_def)
  then show ?thesis
    using assms True queue_push_full [of q x] by (simp add: bounded_def)
next
  case False
  then show ?thesis
    using assms queue_push_not_full [of q x] by (auto simp: bounded_def full_def)
qed

lemma loop_try_not_blocks: "snd (loop_try c t) \<noteq> Blocks"
proof (cases t)
  case TooSoon
  then show ?thesis by (simp add: loop_try_def)
next
  case (Capture g)
  show ?thesis
  proof (cases "capture_screen (exclude_regions c) g")
    case None
    then show ?thesis using Capture by (simp add: loop_try_def Let_def)
  next
    case (Some frame)
    have "snd (queue_push (frame_queue c) frame) \<noteq> Blocks" by (rule queue_push_not_blocks)
    then show ?thesis
      using Capture Some by (auto simp: loop_try_def Let_def split: prod.split)
  qed
qed

lemma capture_iteration_done: "snd (capture_iteration c t) = Done"
  using loop_try_not_blocks [of c t]
  by (auto simp: capture_iteration_def Let_def split: prod.split status.split)

lemma frame_queue_sleep [simp]: "frame_queue (sleep ms c) = frame_queue c"
  by (simp add: sleep_def)

lemma prev_frame_sleep [simp]: "prev_frame (sleep ms c) = prev_frame c"
  by (simp add: sleep_def)

lemma frame_queue_on_exception [simp]: "frame_queue (on_exception c) = frame_queue c"
  by (simp add: on_exception_def Let_def)

lemma prev_frame_on_exception [simp]: "prev_frame (on_exception c) = prev_frame c"
  by (simp add: on_exception_def Let_def)

lemma loop_try_queue:
  "frame_queue (fst (loop_try c t)) = frame_queue c \<or>
   (\<exists>x. frame_queue (fst (loop_try c t)) = fst (queue_push (frame_queue c) x))"
proof (cases t)
  case TooSoon
  then show ?thesis by (simp add: loop_try_def)
next
  case (Capture g)
  show ?thesis
  proof (cases "capture_screen (exclude_regions c) g")
    case None
    then show ?thesis using Capture by (simp add: loop_try_def Let_def)
  next
    case (Some frame)
    obtain q st where p: "queue_push (frame_queue c) frame = (q, st)"
      by (cases "queue_push (frame_queue c) frame") auto
    then have "frame_queue (fst (loop_try c t)) = q"
      using Capture Some by (simp add: loop_try_def Let_def)
    also have "q = fst (queue_push (frame_queue c) frame)" using p by simp
    finally show ?thesis by blast
  qed
qed

lemma loop_try_prev: "prev_frame (fst (loop_try c t)) = prev_frame c"
  by (auto simp: loop_try_def Let_def split: tick.split option.split prod.split)

lemma capture_iteration_queue:
  "frame_queue (fst (capture_iteration c t)) = frame_queue c \<or>
   (\<exists>x. frame_queue (fst (capture_iteration c t)) = fst (queue_push (frame_queue c) x))"
  using loop_try_queue [of c t]
  by (auto simp: capture_iteration_def Let_def split: prod.split status.split)

lemma capture_iteration_prev: "prev_frame (fst (capture_iteration c t)) = prev_frame c"
  using loop_try_prev [of c t]
  by (auto simp: capture_iteration_def Let_def split: prod.split status.split)

lemma capture_iteration_bounded:
  "bounded (frame_queue c) \<Longrightarrow> bounded (frame_queue (fst (capture_iteration c t)))"
  using capture_iteration_queue [of c t] queue_push_bounded by auto

lemma capture_iteration_maxsize:
  "maxsize (frame_queue (fst (capture_iteration c t))) = maxsize (frame_queue c)"
  using capture_iteration_queue [of c t] queue_push_maxsize by auto

lemma get_frame_bounded:
  "bounded (frame_queue c) \<Longrightarrow> bounded (frame_queue (fst (get_frame c d)))"
  by (auto simp: get_frame_def bounded_def Let_def split: list.split option.split direct.split)

lemma get_frame_maxsize:
  "maxsize (frame_queue (fst (get_frame c d))) = maxsize (frame_queue c)"
  by (auto simp: get_frame_def Let_def split: list.split option.split direct.split)

lemma run_bounded:
  "bounded (frame_queue c) \<Longrightarrow>
   bounded (frame_queue (fst (run c evs))) \<and>
   maxsize (frame_queue (fst (run c evs))) = maxsize (frame_queue c)"
proof (induction evs arbitrary: c)
  case Nil
  then show ?case by simp
next
  case (Cons ev evs)
  show ?case
  proof (cases ev)
    case (Pass t)
    let ?c1 = "fst (capture_iteration c t)"
    have "bounded (frame_queue ?c1)" using Cons.prems by (rule capture_iteration_bounded)
    from Cons.IH [OF this] show ?thesis
      using Pass capture_iteration_maxsize [of c t] by simp
  next
    case (Call d)
    let ?c1 = "fst (get_frame c d)"
    have "bounded (frame_queue ?c1)" using Cons.prems by (rule get_frame_bounded)
    from Cons.IH [OF this] show ?thesis
      using Call get_frame_maxsize [of c d] by (simp add: split_beta)
  qed
qed

lemma capture_thread_func_status:
  "snd (capture_thread_func c inputs) = (if list_ex fst inputs then Exited else InLoop)"
proof (induction c inputs rule: capture_thread_func.induct)
  case (1 c)
  then show ?case by simp
next
  case (2 c stop_set t rest)
  show ?case
  proof (cases stop_set)
    case True
    then show ?thesis by simp
  next
    case False
    obtain c1 where c1: "capture_iteration c t = (c1, Done)"
      using capture_iteration_done [of c t] by (cases "capture_iteration c t") auto
    with False 2 show ?thesis by simp
  qed
qed

lemma new_capturer_bounded: "0 < n \<Longrightarrow> bounded (frame_queue (new_capturer n k))"
  by (simp add: new_capturer_def Queue_def bounded_def)

lemma capture_thread_func_not_stalled: "snd (capture_thread_func c inputs) \<noteq> Stalled"
  by (simp add: capture_thread_func_status)

text \<open>
  C2. A push of the capture thread never blocks: it is done at once. When the queue is
  full, exactly the oldest entry is removed and the new frame is appended; otherwise the
  frame is appended. Whatever passes of the capture thread and calls of \<open>get_frame\<close>
  follow each other, the queue never holds more than its capacity (every state on the
  way is the end of a shorter run), and the thread never stalls. The capacity is
  positive: Python gives a queue with \<open>maxsize <= 0\<close> no bound.
\<close>

theorem frame_queue_drop_oldest:
  assumes "bounded (frame_queue c)"
  shows "snd (queue_push (frame_queue c) frame) = Done \<and>
         (full (frame_queue c) \<longrightarrow>
            items (fst (queue_push (frame_queue c) frame)) = tl (items (frame_queue c)) @ [frame]) \<and>
         (\<not> full (frame_queue c) \<longrightarrow>
            items (fst (queue_push (frame_queue c) frame)) = items (frame_queue c) @ [frame]) \<and>
         (\<forall>n. int (length (items (frame_queue (fst (run c (take n evs)))))) \<le> maxsize (frame_queue c)) \<and>
         snd (capture_thread_func c inputs) \<noteq> Stalled"
proof -
  let ?q = "frame_queue c"
  have b: "int (length (items ?q)) \<le> maxsize ?q" using assms by (simp add: bounded_def)
  have 1: "snd (queue_push ?q frame) = Done"
    using queue_push_full [of ?q frame] queue_push_not_full [of ?q frame] b
    by (cases "full ?q") simp_all
  have 2: "items (fst (queue_push ?q frame)) = tl (items ?q) @ [frame]" if "full ?q"
    using that b queue_push_full [of ?q frame] by simp
  have 3: "items (fst (queue_push ?q frame)) = items ?q @ [frame]" if "\<not> full ?q"
    using that queue_push_not_full [of ?q frame] by simp
  have 4: "int (length (items (frame_queue (fst (run c (take n evs)))))) \<le> maxsize ?q" for n
    using run_bounded [OF assms, of "take n evs"] by (simp add: bounded_def)
  show ?thesis using 1 2 3 4 capture_thread_func_not_stalled by blast
qed

theorem frame_queue_drop_oldest_witness:
  "bounded queue_ab \<and> full queue_ab \<and>
   queue_push queue_ab frame1 = (\<lparr>maxsize = 2, items = [frame1, frame1]\<rparr>, Done)"
proof -
  let ?c = "(new_capturer 2 100)\<lparr>frame_queue := queue_ab\<rparr>"
  have q: "frame_queue ?c = queue_ab" by simp
  have b: "bounded (frame_queue ?c)" by (simp add: bounded_def queue_ab_def)
  have f: "full queue_ab" by (simp add: full_def queue_ab_def)
  from frame_queue_drop_oldest [OF b, of frame1]
  have "snd (queue_push queue_ab frame1) = Done"
    "items (fst (queue_push queue_ab frame1)) = tl (items queue_ab) @ [frame1]"
    using f q by simp_all
  moreover have "maxsize (fst (queue_push queue_ab frame1)) = 2"
    by (simp add: queue_push_maxsize queue_ab_def)
  ultimately have "queue_push queue_ab frame1 = (\<lparr>maxsize = 2, items = [frame1, frame1]\<rparr>, Done)"
    by (cases "queue_push queue_ab frame1") (simp add: queue_ab_def)
  then show ?thesis using b f q by simp
qed











section \<open>Properties of \<open>get_frame\<close>\<close>

lemma get_frame_prev:
  "prev_frame c \<noteq> None \<Longrightarrow>
   (\<exists>f. snd (get_frame c d) = Inr (Some f)) \<and> prev_frame (fst (get_frame c d)) \<noteq> None"
  by (auto simp: get_frame_def Let_def split: list.split option.split direct.split)

lemma get_frame_queue:
  "items (frame_queue c) = f # rest \<Longrightarrow>
   snd (get_frame c d) = Inr (Some f) \<and> prev_frame (fst (get_frame c d)) = Some f \<and>
   items (frame_queue (fst (get_frame c d))) = rest"
  by (simp add: get_frame_def Let_def)

lemma run_prev:
  "prev_frame c \<noteq> None \<Longrightarrow> \<forall>r \<in> set (snd (run c evs)). \<exists>f. r = Inr (Some f)"
proof (induction evs arbitrary: c)
  case Nil
  then show ?case by simp
next
  case (Cons ev evs)
  show ?case
  proof (cases ev)
    case (Pass t)
    have "prev_frame (fst (capture_iteration c t)) \<noteq> None"
      using Cons.prems by (simp add: capture_iteration_prev)
    from Cons.IH [OF this] show ?thesis using Pass by simp
  next
    case (Call d)
    from get_frame_prev [OF Cons.prems, of d]
    obtain f where f: "snd (get_frame c d) = Inr (Some f)"
      and p: "prev_frame (fst (get_frame c d)) \<noteq> None" by blast
    from Cons.IH [OF p] show ?thesis using Call f by (simp add: split_beta)
  qed
qed

text \<open>
  C3, as the code has it. A call that times out on the queue returns the frame last
  taken from the queue when there is one, and the result of a direct capture otherwise.
  A call that finds a frame in the queue returns it and records it. Once a frame has
  been taken from the queue, every later call returns a frame, whatever the capture
  thread and the direct capture do in between.
\<close>

theorem get_frame_reuses_queue_frame:
  "(items (frame_queue c) = [] \<and> prev_frame c = Some p \<longrightarrow> get_frame c d = (c, Inr (Some p))) \<and>
   (items (frame_queue c) = [] \<and> prev_frame c = None \<longrightarrow>
      get_frame c (Direct g) = (c, Inr (capture_screen (exclude_regions c) g))) \<and>
   (items (frame_queue c) = f # rest \<longrightarrow>
      snd (get_frame c d) = Inr (Some f) \<and> prev_frame (fst (get_frame c d)) = Some f) \<and>
   (prev_frame c \<noteq> None \<longrightarrow> (\<forall>r \<in> set (snd (run c evs)). \<exists>f. r = Inr (Some f)))"
proof -
  have 1: "get_frame c d = (c, Inr (Some p))"
    if "items (frame_queue c) = []" "prev_frame c = Some p"
    using that by (simp add: get_frame_def)
  have 2: "get_frame c (Direct g) = (c, Inr (capture_screen (exclude_regions c) g))"
    if "items (frame_queue c) = []" "prev_frame c = None"
    using that by (simp add: get_frame_def)
  show ?thesis using 1 2 get_frame_queue [of c f rest d] run_prev [of c evs] by blast
qed

theorem get_frame_reuses_queue_frame_witness:
  "get_frame ((new_capturer 2 100)\<lparr>frame_queue := queue_ab\<rparr>) (Direct GrabRaised) =
     ((new_capturer 2 100)\<lparr>frame_queue := \<lparr>maxsize = 2, items = [frame1]\<rparr>,
                            prev_frame := Some frame2\<rparr>, Inr (Some frame2)) \<and>
   get_frame capturer_after_get MssRaised = (capturer_after_get, Inr (Some frame1)) \<and>
   get_frame (new_capturer 2 100) (Direct (Grabbed frame2)) = (new_capturer 2 100, Inr (Some frame2)) \<and>
   snd (run capturer_after_get [Call (Direct GrabRaised), Pass (Capture GrabRaised), Call MssRaised]) =
     [Inr (Some frame1), Inr (Some frame1)]"
proof -
  let ?c = "(new_capturer 2 100)\<lparr>frame_queue := queue_ab\<rparr>"
  have a: "items (frame_queue ?c) = frame2 # [frame1]" by (simp add: queue_ab_def)
  have b: "items (frame_queue capturer_after_get) = [] \<and> prev_frame capturer_after_get = Some frame1"
    by (simp add: capturer_after_get_def new_capturer_def Queue_def)
  have c: "items (frame_queue (new_capturer 2 100)) = [] \<and> prev_frame (new_capturer 2 100) = None"
    by (simp add: new_capturer_def Queue_def)
  have d: "prev_frame capturer_after_get \<noteq> None" using b by simp
  have e: "exclude_regions (new_capturer 2 100) = []" by (simp add: new_capturer_def)
  have 1: "get_frame capturer_after_get MssRaised = (capturer_after_get, Inr (Some frame1))"
    using get_frame_reuses_queue_frame [of capturer_after_get frame1 MssRaised] b by blast
  have 2: "get_frame (new_capturer 2 100) (Direct (Grabbed frame2)) =
             (new_capturer 2 100, Inr (Some frame2))"
    using get_frame_reuses_queue_frame [of "new_capturer 2 100" _ _ "Grabbed frame2"] c e
    by (simp add: mask_regions_def)
  have 3: "get_frame ?c (Direct GrabRaised) =
             ((new_capturer 2 100)\<lparr>frame_queue := \<lparr>maxsize = 2, items = [frame1]\<rparr>,
                                    prev_frame := Some frame2\<rparr>, Inr (Some frame2))"
    by (simp add: get_frame_def new_capturer_def queue_ab_def Let_def)
  have 4: "snd (run capturer_after_get [Call (Direct GrabRaised), Pass (Capture GrabRaised), Call MssRaised]) =
             [Inr (Some frame1), Inr (Some frame1)]"
    by (simp add: get_frame_def capture_iteration_def loop_try_def capturer_after_get_def
        new_capturer_def Queue_def Let_def)
  show ?thesis using 1 2 3 4 by simp
qed

text \<open>
  C3 as stated fails for a frame obtained by the direct capture: it is returned but not
  recorded, so a later call with an empty queue and a failing direct capture returns
  \<open>None\<close> although a frame was retrieved before.
\<close>

theorem get_frame_none_after_direct_capture_counterexample:
  "run (new_capturer 2 100) [Call (Direct (Grabbed frame2)), Call (Direct GrabRaised)] =
     (new_capturer 2 100, [Inr (Some frame2), Inr None])"
  by (simp add: get_frame_def new_capturer_def Queue_def mask_regions_def)

section \<open>Properties of the mosaic\<close>

lemma length_resample: "length (resample smp src w h) = h"
  by (simp add: resample_def)

lemma shape0_resample: "shape0 (resample smp src w h) = h"
  by (simp add: shape0_def resample_def)

lemma shape1_resample: "0 < h \<Longrightarrow> shape1 (resample smp src w h) = w"
  by (cases h) (simp_all add: shape1_def resample_def upt_conv_Cons del: upt_Suc)

lemma rect_resample: "rect (resample smp src w h)"
proof (cases h)
  case 0
  then show ?thesis by (simp add: rect_def resample_def)
next
  case (Suc n)
  then have "shape1 (resample smp src w h) = w" by (simp add: shape1_resample)
  then show ?thesis by (simp add: rect_def list_all_iff) (simp add: resample_def)
qed

lemma image_size_resample: "0 < w \<Longrightarrow> 0 < h \<Longrightarrow> image_size (resample smp src w h) \<noteq> 0"
  by (simp add: image_size_def shape0_resample shape1_resample)

lemma image_size_pos: "0 < image_size img \<longleftrightarrow> 0 < shape0 img \<and> 0 < shape1 img"
  by (auto simp: image_size_def)

lemma cv2_resize_ok:
  "image_size src \<noteq> 0 \<Longrightarrow> 0 < w \<Longrightarrow> 0 < h \<Longrightarrow>
   cv2_resize lin src (w, h) interp =
     Inr (resample (case interp of INTER_NEAREST \<Rightarrow> nearest | INTER_LINEAR \<Rightarrow> lin) src (nat w) (nat h))"
  by (simp add: cv2_resize_def)

lemma mosaic_try_zero: "mosaic_try lin img 0 = Inl ZeroDivisionError"
  by (simp add: mosaic_try_def floordiv_def Let_def)

lemma mosaic_try_nonzero:
  assumes "image_size img \<noteq> 0" "s \<noteq> 0"
  shows "mosaic_try lin img s = Inr (mosaic_spec lin img s)"
proof -
  let ?h = "int (shape0 img)" and ?w = "int (shape1 img)"
  let ?sh = "max 1 (?h div s)" and ?sw = "max 1 (?w div s)"
  let ?small = "resample lin img (nat ?sw) (nat ?sh)"
  have pos: "0 < ?h" "0 < ?w" using assms(1) image_size_pos [of img] by simp_all
  have 1: "cv2_resize lin img (?sw, ?sh) INTER_LINEAR = Inr ?small"
    using assms(1) by (simp add: cv2_resize_ok)
  have "image_size ?small \<noteq> 0" by (rule image_size_resample) simp_all
  then have 2: "cv2_resize lin ?small (?w, ?h) INTER_NEAREST =
                Inr (resample nearest ?small (shape1 img) (shape0 img))"
    using pos by (simp add: cv2_resize_ok)
  show ?thesis
    using assms(2) 1 2 by (simp add: mosaic_try_def floordiv_def Let_def mosaic_spec_def)
qed

lemma mosaic_spec_shape:
  "image_size img \<noteq> 0 \<Longrightarrow>
   shape0 (mosaic_spec lin img s) = shape0 img \<and> shape1 (mosaic_spec lin img s) = shape1 img \<and>
   rect (mosaic_spec lin img s)"
  using image_size_pos [of img]
  by (simp add: mosaic_spec_def shape0_resample shape1_resample rect_resample)

lemma apply_mosaic_cases:
  "apply_mosaic lin st img strength =
     (let s = (case strength of None \<Rightarrow> st | Some s \<Rightarrow> s) in
      if image_size img = 0 \<or> s = 0 then Inr img else Inr (mosaic_spec lin img s))"
  by (auto simp: apply_mosaic_def Let_def mosaic_try_zero mosaic_try_nonzero split: option.split)

lemma apply_mosaic_shape:
  "\<exists>out. apply_mosaic lin st img strength = Inr out \<and> shape0 out = shape0 img \<and>
         shape1 out = shape1 img \<and> (rect img \<longrightarrow> rect out)"
  by (auto simp: apply_mosaic_cases Let_def mosaic_spec_shape)

text \<open>
  C4. For a non-empty region and every strength, \<open>apply_mosaic\<close> returns an image
  with the rows and columns of the region. For every strength other than zero the
  result is the mosaic of the specification: the region scaled down to
  \<open>max(1, dim // strength)\<close> per axis with linear sampling and scaled back to its own
  size with nearest-neighbour sampling. (At strength zero the quotient does not exist;
  the function returns the region, see C10.) A region of zero area is returned as it
  is. Leaving the strength out means \<open>self.strength\<close>.
\<close>

theorem apply_mosaic_same_size:
  "(image_size img \<noteq> 0 \<longrightarrow>
      (\<exists>out. apply_mosaic lin self_strength img (Some s) = Inr out \<and>
             shape0 out = shape0 img \<and> shape1 out = shape1 img) \<and>
      (s \<noteq> 0 \<longrightarrow> apply_mosaic lin self_strength img (Some s) = Inr (mosaic_spec lin img s))) \<and>
   (image_size img = 0 \<longrightarrow> apply_mosaic lin self_strength img strength = Inr img) \<and>
   apply_mosaic lin self_strength img None = apply_mosaic lin self_strength img (Some self_strength)"
proof -
  have 1: "\<exists>out. apply_mosaic lin self_strength img (Some s) = Inr out \<and>
             shape0 out = shape0 img \<and> shape1 out = shape1 img"
    using apply_mosaic_shape [of lin self_strength img "Some s"] by blast
  have 2: "apply_mosaic lin self_strength img (Some s) = Inr (mosaic_spec lin img s)"
    if "image_size img \<noteq> 0" "s \<noteq> 0"
    using that by (simp add: apply_mosaic_cases)
  have 3: "apply_mosaic lin self_strength img strength = Inr img" if "image_size img = 0"
    using that by (simp add: apply_mosaic_cases Let_def)
  have 4: "apply_mosaic lin self_strength img None =
           apply_mosaic lin self_strength img (Some self_strength)"
    by (simp add: apply_mosaic_def)
  show ?thesis using 1 2 3 4 by blast
qed

lemma mosaic_quad:
  "mosaic_spec bilinear frame_quad 15 =
     [[(150, 75, 30), (150, 75, 30)], [(150, 75, 30), (150, 75, 30)]]"
  by code_simp

theorem apply_mosaic_same_size_witness:
  "image_size frame_quad \<noteq> 0 \<and>
   apply_mosaic bilinear 15 frame_quad (Some 15) =
     Inr [[(150, 75, 30), (150, 75, 30)], [(150, 75, 30), (150, 75, 30)]] \<and>
   apply_mosaic bilinear 15 frame_quad None =
     Inr [[(150, 75, 30), (150, 75, 30)], [(150, 75, 30), (150, 75, 30)]] \<and>
   (\<exists>out. apply_mosaic bilinear 15 frame_quad (Some 0) = Inr out \<and> shape0 out = 2 \<and> shape1 out = 2) \<and>
   apply_mosaic bilinear 15 [] (Some 15) = Inr []"
proof -
  have n: "image_size frame_quad \<noteq> 0"
    by (simp add: image_size_def shape0_def shape1_def frame_quad_def)
  have d: "shape0 frame_quad = 2" "shape1 frame_quad = 2"
    by (simp_all add: shape0_def shape1_def frame_quad_def)
  have e: "image_size [] = 0" by (simp add: image_size_def shape0_def)
  have s: "(15 :: int) \<noteq> 0" by simp
  note t = apply_mosaic_same_size [of frame_quad bilinear 15 15 None]
  have 1: "apply_mosaic bilinear 15 frame_quad (Some 15) = Inr (mosaic_spec bilinear frame_quad 15)"
    using t n s by blast
  have 2: "apply_mosaic bilinear 15 frame_quad None = apply_mosaic bilinear 15 frame_quad (Some 15)"
    using t by blast
  have 3: "\<exists>out. apply_mosaic bilinear 15 frame_quad (Some 0) = Inr out \<and>
             shape0 out = shape0 frame_quad \<and> shape1 out = shape1 frame_quad"
    using apply_mosaic_same_size [of frame_quad bilinear 15 0 None] n by blast
  have 4: "apply_mosaic bilinear 15 [] (Some 15) = Inr []"
    using apply_mosaic_same_size [of "[]" bilinear 15 15 "Some 15"] e by blast
  have 5: "\<exists>out. apply_mosaic bilinear 15 frame_quad (Some 0) = Inr out \<and>
             shape0 out = 2 \<and> shape1 out = 2"
    using 3 by (simp only: d)
  have 6: "apply_mosaic bilinear 15 frame_quad (Some 15) =
             Inr [[(150, 75, 30), (150, 75, 30)], [(150, 75, 30), (150, 75, 30)]]"
    using 1 by (simp only: mosaic_quad)
  have 7: "apply_mosaic bilinear 15 frame_quad None =
             Inr [[(150, 75, 30), (150, 75, 30)], [(150, 75, 30), (150, 75, 30)]]"
    using 2 6 by (simp only:)
  from n 6 7 5 4 show ?thesis by (intro conjI)
qed

text \<open>
  C10. \<open>apply_mosaic\<close> returns an image for every image and strength: no exception
  leaves it. Whenever a step of its \<open>try\<close> block fails, the result is the input image;
  the division by a strength of zero is such a failure.
\<close>

theorem apply_mosaic_total:
  "(\<exists>out. apply_mosaic lin self_strength img strength = Inr out) \<and>
   (\<forall>e. mosaic_try lin img (case strength of None \<Rightarrow> self_strength | Some s \<Rightarrow> s) = Inl e \<longrightarrow>
        apply_mosaic lin self_strength img strength = Inr img) \<and>
   mosaic_try lin img 0 = Inl ZeroDivisionError \<and>
   apply_mosaic lin self_strength img (Some 0) = Inr img"
proof -
  have 1: "\<exists>out. apply_mosaic lin self_strength img strength = Inr out"
    using apply_mosaic_shape [of lin self_strength img strength] by blast
  have 2: "apply_mosaic lin self_strength img strength = Inr img"
    if "mosaic_try lin img (case strength of None \<Rightarrow> self_strength | Some s \<Rightarrow> s) = Inl e" for e
    using that by (simp add: apply_mosaic_def Let_def)
  have 3: "apply_mosaic lin self_strength img (Some 0) = Inr img"
    by (simp add: apply_mosaic_cases)
  show ?thesis using 1 2 3 mosaic_try_zero by blast
qed

theorem apply_mosaic_total_witness:
  "mosaic_try bilinear frame_quad 0 = Inl ZeroDivisionError \<and>
   apply_mosaic bilinear 0 frame_quad None = Inr frame_quad \<and>
   apply_mosaic bilinear 15 frame_quad (Some 0) = Inr frame_quad"
proof -
  have "mosaic_try bilinear frame_quad (case None of None \<Rightarrow> 0 | Some s \<Rightarrow> s) = Inl ZeroDivisionError"
    by (simp add: mosaic_try_zero)
  then show ?thesis
    using apply_mosaic_total [of bilinear 0 frame_quad None]
      apply_mosaic_total [of bilinear 15 frame_quad "Some 0"]
    by simp
qed

section \<open>Properties of the processing pass\<close>

lemma slice_index_le: "slice_index n i \<le> n"
  by (auto simp: slice_index_def max_def)

lemma length_get_slice:
  "length (get_slice img r0 r1 c0 c1) = slice_index (shape0 img) r1 - slice_index (shape0 img) r0"
  by (simp add: get_slice_def Let_def)

lemma shape0_get_slice:
  "shape0 (get_slice img r0 r1 c0 c1) = slice_index (shape0 img) r1 - slice_index (shape0 img) r0"
  by (simp add: shape0_def length_get_slice)

lemma shape1_get_slice:
  "slice_index (shape0 img) r0 < slice_index (shape0 img) r1 \<Longrightarrow>
   shape1 (get_slice img r0 r1 c0 c1) = slice_index (shape1 img) c1 - slice_index (shape1 img) c0"
  by (simp add: shape1_def get_slice_def Let_def upt_conv_Cons)

lemma get_slice_empty_rows:
  "\<not> slice_index (shape0 img) r0 < slice_index (shape0 img) r1 \<Longrightarrow>
   image_size (get_slice img r0 r1 c0 c1) = 0"
  by (simp add: image_size_def shape0_get_slice)

lemma rect_get_slice: "rect (get_slice img r0 r1 c0 c1)"
proof (cases "slice_index (shape0 img) r0 < slice_index (shape0 img) r1")
  case True
  then show ?thesis
    by (simp add: rect_def list_all_iff shape1_get_slice) (simp add: get_slice_def Let_def)
next
  case False
  then show ?thesis by (simp add: rect_def get_slice_def Let_def)
qed

lemma set_slice_fits:
  assumes "shape0 v = slice_index (shape0 img) r1 - slice_index (shape0 img) r0"
    and "shape1 v = slice_index (shape1 img) c1 - slice_index (shape1 img) c0"
  shows "\<exists>out. set_slice img r0 r1 c0 c1 v = Inr out \<and> length out = length img \<and>
           (\<forall>i < length img. length (out ! i) = length (img ! i)) \<and>
           (\<forall>i < length img. \<forall>j < length (img ! i).
              \<not> (slice_index (shape0 img) r0 \<le> i \<and> i < slice_index (shape0 img) r1 \<and>
                 slice_index (shape1 img) c0 \<le> j \<and> j < slice_index (shape1 img) c1) \<longrightarrow>
              out ! i ! j = img ! i ! j)"
  using assms by (simp add: set_slice_def Let_def)

lemma same_rows_shape:
  assumes "length out = length img" "\<forall>i < length img. length (out ! i) = length (img ! i)"
  shows "shape0 out = shape0 img \<and> shape1 out = shape1 img \<and> (rect img \<longrightarrow> rect out)"
proof -
  have 0: "shape0 out = shape0 img" using assms by (simp add: shape0_def)
  have 1: "shape1 out = shape1 img"
  proof (cases img)
    case Nil
    then show ?thesis using assms by (simp add: shape1_def)
  next
    case (Cons r rs)
    then obtain r' rs' where o: "out = r' # rs'" using assms(1) by (cases out) auto
    have "length (out ! 0) = length (img ! 0)" using assms(2) Cons by simp
    then show ?thesis using o Cons by (simp add: shape1_def)
  qed
  have "rect out" if "rect img"
    using that assms 1 by (simp add: rect_def list_all_length)
  then show ?thesis using 0 1 by blast
qed

lemma nonneg_slice:
  assumes "0 \<le> b" "slice_index n a \<le> i" "i < slice_index n b"
  shows "a \<le> int i \<and> int i < b"
  using assms by (auto simp: slice_index_def min_def split: if_splits)

lemma mosaic_detections_frame:
  assumes "rect f"
    and "\<forall>d \<in> set ds. class_name d \<in> set targets \<longrightarrow> far_corner_nonneg (bbox d)"
  shows "\<exists>out. mosaic_detections lin st targets strength f ds = Inr out \<and>
           shape0 out = shape0 f \<and> shape1 out = shape1 f \<and> rect out \<and>
           (\<forall>i < shape0 f. \<forall>j < shape1 f.
              (\<forall>d \<in> set ds. class_name d \<in> set targets \<longrightarrow> \<not> in_bbox (bbox d) i j) \<longrightarrow>
              out ! i ! j = f ! i ! j)"
  using assms
proof (induction ds arbitrary: f)
  case Nil
  then show ?case by simp
next
  case (Cons d ds)
  have nn: "\<forall>d \<in> set ds. class_name d \<in> set targets \<longrightarrow> far_corner_nonneg (bbox d)"
    using Cons.prems(2) by simp
  show ?case
  proof (cases "class_name d \<in> set targets")
    case False
    from Cons.IH [OF Cons.prems(1) nn] show ?thesis using False by simp
  next
    case True
    obtain x1 y1 x2 y2 where b: "bbox d = (x1, y1, x2, y2)" by (cases "bbox d") auto
    have nb: "0 \<le> x2" "0 \<le> y2"
      using Cons.prems(2) True b by (auto simp: far_corner_nonneg_def)
    let ?region = "get_slice f y1 y2 x1 x2"
    show ?thesis
    proof (cases "image_size ?region > 0")
      case False
      from Cons.IH [OF Cons.prems(1) nn] obtain out where out:
        "mosaic_detections lin st targets strength f ds = Inr out"
        "shape0 out = shape0 f" "shape1 out = shape1 f" "rect out"
        "\<forall>i < shape0 f. \<forall>j < shape1 f.
           (\<forall>d \<in> set ds. class_name d \<in> set targets \<longrightarrow> \<not> in_bbox (bbox d) i j) \<longrightarrow>
           out ! i ! j = f ! i ! j"
        by blast
      have "mosaic_detections lin st targets strength f (d # ds) = Inr out"
        using False True b out(1) by simp
      then show ?thesis using out(2,3,4,5) by auto
    next
      case nonempty: True
      have rows: "slice_index (shape0 f) y1 < slice_index (shape0 f) y2"
        using nonempty get_slice_empty_rows [of f y1 y2 x1 x2] by auto
      obtain m where m: "apply_mosaic lin st ?region strength = Inr m"
        "shape0 m = shape0 ?region" "shape1 m = shape1 ?region"
        using apply_mosaic_shape [of lin st ?region strength] by blast
      have fit: "shape0 m = slice_index (shape0 f) y2 - slice_index (shape0 f) y1"
        "shape1 m = slice_index (shape1 f) x2 - slice_index (shape1 f) x1"
        using m rows by (simp_all add: shape0_get_slice shape1_get_slice)
      from set_slice_fits [OF fit] obtain g where g: "set_slice f y1 y2 x1 x2 m = Inr g"
        "length g = length f" "\<forall>i < length f. length (g ! i) = length (f ! i)"
        "\<forall>i < length f. \<forall>j < length (f ! i).
           \<not> (slice_index (shape0 f) y1 \<le> i \<and> i < slice_index (shape0 f) y2 \<and>
              slice_index (shape1 f) x1 \<le> j \<and> j < slice_index (shape1 f) x2) \<longrightarrow>
           g ! i ! j = f ! i ! j"
        by blast
      have sg: "shape0 g = shape0 f" "shape1 g = shape1 f" "rect g"
        using same_rows_shape [OF g(2,3)] Cons.prems(1) by simp_all
      from Cons.IH [OF sg(3) nn] obtain out where out:
        "mosaic_detections lin st targets strength g ds = Inr out"
        "shape0 out = shape0 g" "shape1 out = shape1 g" "rect out"
        "\<forall>i < shape0 g. \<forall>j < shape1 g.
           (\<forall>d \<in> set ds. class_name d \<in> set targets \<longrightarrow> \<not> in_bbox (bbox d) i j) \<longrightarrow>
           out ! i ! j = g ! i ! j"
        by blast
      have run: "mosaic_detections lin st targets strength f (d # ds) = Inr out"
        using True b nonempty m(1) g(1) out(1) by simp
      have keep: "out ! i ! j = f ! i ! j"
        if ij: "i < shape0 f" "j < shape1 f"
          and o: "\<forall>e \<in> set (d # ds). class_name e \<in> set targets \<longrightarrow> \<not> in_bbox (bbox e) i j"
        for i j
      proof -
        have "out ! i ! j = g ! i ! j" using out(5) ij sg o by simp
        moreover have "g ! i ! j = f ! i ! j"
        proof -
          have li: "i < length f" using ij by (simp add: shape0_def)
          have lj: "j < length (f ! i)" using ij Cons.prems(1) by (simp add: rect_nth)
          have "\<not> in_bbox (x1, y1, x2, y2) i j" using o True b by simp
          then have "\<not> (slice_index (shape0 f) y1 \<le> i \<and> i < slice_index (shape0 f) y2 \<and>
              slice_index (shape1 f) x1 \<le> j \<and> j < slice_index (shape1 f) x2)"
            using nonneg_slice [where a = y1 and b = y2 and n = "shape0 f" and i = i]
              nonneg_slice [where a = x1 and b = x2 and n = "shape1 f" and i = j] nb
            by (auto simp: in_bbox_def)
          then show ?thesis using g(4) li lj by blast
        qed
        ultimately show ?thesis by simp
      qed
      show ?thesis using run out(2,3,4) sg keep by auto
    qed
  qed
qed

lemma frame4_run:
  "processing_loop_frame bilinear 15 [''face''] 15 frame4 [hand_corner, face_inside] = Inr frame4_mosaic"
  by code_simp


text \<open>
  Where the far corner of every target box is not negative, the loop keeps what the
  claim asks for: the frame handed to the overlay has the size of the input frame and
  equals it at every pixel that lies outside the boxes of all detections whose class is
  a target; \<open>detect_objects_detailed\<close> yields the same frame.
\<close>

theorem mosaic_only_inside_target_boxes:
  assumes "rect frame"
    and "\<forall>d \<in> set detections. class_name d \<in> set targets \<longrightarrow> far_corner_nonneg (bbox d)"
  shows "\<exists>out. processing_loop_frame lin self_strength targets strength_var frame detections = Inr out \<and>
           shape0 out = shape0 frame \<and> shape1 out = shape1 frame \<and>
           (\<forall>i < shape0 frame. \<forall>j < shape1 frame.
              (\<forall>d \<in> set detections. class_name d \<in> set targets \<longrightarrow> \<not> in_bbox (bbox d) i j) \<longrightarrow>
              out ! i ! j = frame ! i ! j) \<and>
           detect_objects_detailed lin strength_var targets frame detections = Inr (out, detections)"
proof -
  from mosaic_detections_frame [OF assms, of lin self_strength "Some strength_var"]
  obtain out where out:
    "mosaic_detections lin self_strength targets (Some strength_var) frame detections = Inr out"
    "shape0 out = shape0 frame" "shape1 out = shape1 frame"
    "\<forall>i < shape0 frame. \<forall>j < shape1 frame.
       (\<forall>d \<in> set detections. class_name d \<in> set targets \<longrightarrow> \<not> in_bbox (bbox d) i j) \<longrightarrow>
       out ! i ! j = frame ! i ! j"
    by blast
  have same: "mosaic_detections lin a targets (Some s) f ds = mosaic_detections lin b targets (Some s) f ds"
    for a b s f and ds :: "'a detection list"
    by (induction ds arbitrary: f)
      (auto simp: apply_mosaic_def Let_def split: sum.split prod.split)
  have "detect_objects_detailed lin strength_var targets frame detections = Inr (out, detections)"
    using out(1) same [of strength_var strength_var frame detections self_strength]
    by (simp add: detect_objects_detailed_def)
  then show ?thesis using out by (auto simp: processing_loop_frame_def)
qed

theorem mosaic_only_inside_target_boxes_witness:
  "rect frame4 \<and> far_corner_nonneg (bbox face_inside) \<and>
   processing_loop_frame bilinear 15 [''face''] 15 frame4 [hand_corner, face_inside] = Inr frame4_mosaic \<and>
   \<not> in_bbox (bbox face_inside) 0 1 \<and> in_bbox (bbox hand_corner) 0 1 \<and>
   frame4_mosaic ! 0 ! 1 = frame4 ! 0 ! 1 \<and>
   in_bbox (bbox face_inside) 1 1 \<and> frame4_mosaic ! 1 ! 1 \<noteq> frame4 ! 1 ! 1"
proof -
  have r: "rect frame4" by (simp add: rect_def frame4_def shape1_def)
  have n: "\<forall>d \<in> set [hand_corner, face_inside].
             class_name d \<in> set [''face''] \<longrightarrow> far_corner_nonneg (bbox d)"
    by (simp add: hand_corner_def face_inside_def far_corner_nonneg_def)
  have o: "\<forall>d \<in> set [hand_corner, face_inside].
             class_name d \<in> set [''face''] \<longrightarrow> \<not> in_bbox (bbox d) 0 1"
    by (simp add: hand_corner_def face_inside_def in_bbox_def)
  have b: "(0 :: nat) < shape0 frame4" "(1 :: nat) < shape1 frame4"
    by (simp_all add: frame4_def shape0_def shape1_def)
  from mosaic_only_inside_target_boxes [OF r n, of bilinear 15 15]
  obtain out where out:
    "processing_loop_frame bilinear 15 [''face''] 15 frame4 [hand_corner, face_inside] = Inr out"
    "\<forall>i < shape0 frame4. \<forall>j < shape1 frame4.
       (\<forall>d \<in> set [hand_corner, face_inside].
          class_name d \<in> set [''face''] \<longrightarrow> \<not> in_bbox (bbox d) i j) \<longrightarrow>
       out ! i ! j = frame4 ! i ! j"
    by blast
  have e: "out = frame4_mosaic" using out(1) frame4_run by simp
  have k: "frame4_mosaic ! 0 ! 1 = frame4 ! 0 ! 1" using out(2) o b e by blast
  have m: "\<not> in_bbox (bbox face_inside) 0 1" "in_bbox (bbox hand_corner) 0 1"
    "in_bbox (bbox face_inside) 1 1" "far_corner_nonneg (bbox face_inside)"
    by (simp_all add: hand_corner_def face_inside_def in_bbox_def far_corner_nonneg_def)
  have d: "frame4_mosaic ! 1 ! 1 \<noteq> frame4 ! 1 ! 1"
    by (simp add: frame4_mosaic_def frame4_def)
  show ?thesis using r frame4_run k m d by simp
qed


section \<open>Properties of showing the overlay\<close>





lemma protected_flags:
  "is_visible (set_window_click_through_and_capture_protected env ov) = is_visible ov"
  "is_running (set_window_click_through_and_capture_protected env ov) = is_running ov"
  by (simp_all add: set_window_click_through_and_capture_protected_def called_def Let_def
        start_topmost_keeper_def install_activation_hook_def split: option.splits)


lemma protected_without_win32:
  "\<not> HAS_WIN32 env \<Longrightarrow> set_window_click_through_and_capture_protected env ov = ov"
  by (simp add: set_window_click_through_and_capture_protected_def)

lemma init_pygame_result:
  "init_pygame env ov =
     (if snd (create_window env ov)
      then (set_window_click_through_and_capture_protected env (fst (create_window env ov)), True)
      else (fst (create_window env ov), False))"
  by (cases "create_window env ov"; cases "HAS_WIN32 env")
     (simp_all add: init_pygame_def protected_without_win32)

lemma show_overlay_result:
  "show_overlay env ov =
     (if is_visible ov then (ov, None)
      else if snd (create_window env ov)
      then (called [StartDisplayThread]
              ((set_window_click_through_and_capture_protected env (fst (create_window env ov)))
                 \<lparr>is_visible := True, is_running := True, display_thread := True\<rparr>),
            Some True)
      else (fst (create_window env ov), Some False))"
  by (simp add: show_overlay_def init_pygame_result)

lemma uninstall_activation_hook_flags:
  "is_visible (uninstall_activation_hook env ov) = is_visible ov"
  "is_running (uninstall_activation_hook env ov) = is_running ov"
  by (simp_all add: uninstall_activation_hook_def called_def)

lemma stop_topmost_keeper_flags:
  "is_visible (stop_topmost_keeper env ov) = is_visible ov"
  "is_running (stop_topmost_keeper env ov) = is_running ov"
  by (simp_all add: stop_topmost_keeper_def called_def)

lemma hide_flags:
  "is_visible ov \<Longrightarrow> \<not> is_visible (hide env ov)"
  "is_visible ov \<Longrightarrow> \<not> is_running (hide env ov)"
  by (simp_all add: hide_def Let_def called_def uninstall_activation_hook_flags
        stop_topmost_keeper_flags)

lemma hide_not_visible: "\<not> is_visible (hide env ov)"
  using hide_flags(1) [of ov env] by (cases "is_visible ov") (simp_all add: hide_def)




section \<open>Properties of stopping\<close>

lemma stop_censoring_not_running: "\<not> app_running (stop_censoring env a)"
  by (simp add: stop_censoring_def log_message_def Let_def)

lemma started_example:
  "start_censoring windows_ok [''face''] True False (new_app False) =
     \<lparr>app_running = True,
      overlay = fst (show_overlay windows_ok (new_overlay False)),
      process_thread = True, status_label = Censoring, start_button_enabled = False,
      stop_button_enabled = True, log_text = [Started, Settings, WindowsEnabled]\<rparr>"
proof -
  have ok: "snd (show_overlay windows_ok (new_overlay False)) = Some True"
    by (simp add: show_overlay_result create_window_def new_overlay_def windows_ok_def
          called_def)
  have same: "(new_overlay False)\<lparr>show_debug_info := False\<rparr> = new_overlay False"
    by (simp add: new_overlay_def)
  have importable: "win32gui_importable windows_ok"
    by (simp add: windows_ok_def)
  obtain ov r where shown: "show_overlay windows_ok (new_overlay False) = (ov, r)"
    by (cases "show_overlay windows_ok (new_overlay False)")
  with ok have r: "r = Some True"
    by simp
  show ?thesis
    using importable
    by (simp add: start_censoring_def new_app_def same shown r log_message_def Let_def)
qed

text \<open>
  C9. \<open>stop_censoring\<close> on an application that is not running returns at once with
  every field as it was, the running flag and the overlay with its visibility included:
  it calls neither \<open>hide\<close> nor the widgets, so nothing can raise. That is the case before
  any start and after a stop, so a second stop in a row leaves the state of the first.
  The same holds for \<open>hide\<close> on an overlay that is not visible.
\<close>

theorem stop_censoring_twice_is_noop:
  "stop_censoring e2 (stop_censoring e1 a) = stop_censoring e1 a
   \<and> stop_censoring e (new_app d) = new_app d
   \<and> (\<not> app_running a \<longrightarrow> stop_censoring e a = a)
   \<and> \<not> app_running (stop_censoring e a)
   \<and> hide e2 (hide e1 ov) = hide e1 ov
   \<and> (\<not> is_visible ov \<longrightarrow> hide e ov = ov)"
proof -
  have noop: "stop_censoring env b = b" if "\<not> app_running b" for env b
    using that by (simp add: stop_censoring_def)
  have hide_noop: "hide env w = w" if "\<not> is_visible w" for env w
    using that by (simp add: hide_def)
  have "stop_censoring e2 (stop_censoring e1 a) = stop_censoring e1 a"
    using noop [OF stop_censoring_not_running] .
  moreover have "stop_censoring e (new_app d) = new_app d"
    by (rule noop) (simp add: new_app_def)
  moreover have "hide e2 (hide e1 ov) = hide e1 ov"
    using hide_noop [OF hide_not_visible] .
  ultimately show ?thesis
    using noop hide_noop stop_censoring_not_running by blast
qed

theorem stop_censoring_twice_is_noop_witness:
  "\<not> app_running (new_app False)
   \<and> stop_censoring windows_ok (new_app False) = new_app False
   \<and> \<not> is_visible (new_overlay False)
   \<and> hide windows_ok (new_overlay False) = new_overlay False
   \<and> app_running (start_censoring windows_ok [''face''] True False (new_app False))
   \<and> stop_censoring windows_ok (stop_censoring windows_ok
        (start_censoring windows_ok [''face''] True False (new_app False))) =
       stop_censoring windows_ok
        (start_censoring windows_ok [''face''] True False (new_app False))"
proof -
  have idle: "\<not> app_running (new_app False)"
    by (simp add: new_app_def)
  have hidden: "\<not> is_visible (new_overlay False)"
    by (simp add: new_overlay_def)
  have started: "app_running (start_censoring windows_ok [''face''] True False (new_app False))"
    by (simp add: started_example)
  from idle hidden started show ?thesis
    using stop_censoring_twice_is_noop
            [where a = "new_app False" and e = windows_ok and ov = "new_overlay False"]
      stop_censoring_twice_is_noop
            [where a = "start_censoring windows_ok [''face''] True False (new_app False)"
               and ?e1.0 = windows_ok and ?e2.0 = windows_ok]
    by blast
qed

end
